theory Spec2Isabelle
  imports
    Main
    "HOL-Library.AList"
    "HOL-Library.Multiset"
    "HOL-Library.Char_ord"
    "HOL-Library.List_Lexorder"
    "HOL-Library.Product_Lexorder"
begin

section \<open>Python values as the build script sees them\<close>

text \<open>
  \<^verbatim>\<open>scripts/build.py\<close> turns the open tasks of a Todoist project into a static board.
  Its records come from an SDK or from decoded JSON, so every field is dynamically typed.
  The values of the embedding are the ones such records hold: \<^verbatim>\<open>None\<close>, booleans,
  unbounded integers, strings, lists, string-keyed dicts, and instances of other classes.

  A string is a list of 8-bit characters, read as the code points 0..255. Floats, tuples,
  sets and bytes are not part of the value universe, nor is the interpreter's limit on the
  number of digits of an integer literal.

  An instance of another class (\<open>PObj\<close>) is given by its attribute table: a name maps to
  what reading the attribute does, \<open>Inr v\<close> for a value and \<open>Inl e\<close> for a property that
  raises \<open>e\<close>; a name that is not in the table raises \<^verbatim>\<open>AttributeError\<close>. Such an instance
  is truthy, is not iterable and has no integer conversion (the defaults of a class that
  defines none of the special methods). The items of a \<open>PDict\<close> are read with \<open>map_of\<close>.
\<close>

datatype exn =
    AttributeError | TypeError | ValueError | KeyError | RuntimeError | KeyboardInterrupt

text \<open>\<^verbatim>\<open>except Exception\<close> catches every exception of the model but \<^verbatim>\<open>KeyboardInterrupt\<close>,
  which derives from \<^verbatim>\<open>BaseException\<close> only.\<close>

definition is_Exception :: "exn \<Rightarrow> bool" where
  "is_Exception e = (e \<noteq> KeyboardInterrupt)"

datatype pyval =
    PNone
  | PBool bool
  | PInt int
  | PStr string
  | PList "pyval list"
  | PDict "(string \<times> pyval) list"
  | PObj "(string \<times> (exn + pyval)) list"

text \<open>
  Two tables of the interpreter are not part of the repository and are parameters of the
  embedding: the attributes that instances of the built-in types expose (\<^verbatim>\<open>dict.keys\<close>,
  \<^verbatim>\<open>str.title\<close>, ...), and what \<^verbatim>\<open>str()\<close> prints for a list, a dict or an instance of
  another class. Every theorem below holds for every such runtime.
\<close>

record runtime =
  builtin_attr :: "pyval \<Rightarrow> string \<Rightarrow> pyval option"
  str_other :: "pyval \<Rightarrow> string"

text \<open>A runtime for the worked examples, none of which reads a built-in attribute or
  prints a container.\<close>

definition plain_runtime :: runtime where
  "plain_runtime = \<lparr>builtin_attr = (\<lambda>_ _. None), str_other = (\<lambda>_. ''<object>'')\<rparr>"

subsection \<open>Attribute access\<close>

text \<open>\<^verbatim>\<open>getattr(obj, a)\<close>: the value, or the exception raised.\<close>

definition py_getattr :: "runtime \<Rightarrow> pyval \<Rightarrow> string \<Rightarrow> exn + pyval" where
  "py_getattr rt obj a =
     (case obj of
        PObj tbl \<Rightarrow> (case map_of tbl a of None \<Rightarrow> Inl AttributeError | Some r \<Rightarrow> r)
      | _ \<Rightarrow> (case builtin_attr rt obj a of None \<Rightarrow> Inl AttributeError | Some m \<Rightarrow> Inr m))"

text \<open>\<^verbatim>\<open>hasattr(obj, a)\<close> in Python 3 reads the attribute and answers \<^verbatim>\<open>False\<close> on
  \<^verbatim>\<open>AttributeError\<close> only; any other exception of the read leaves \<^verbatim>\<open>hasattr\<close> itself.\<close>

definition hasattr :: "runtime \<Rightarrow> pyval \<Rightarrow> string \<Rightarrow> exn + bool" where
  "hasattr rt obj a =
     (case py_getattr rt obj a of
        Inr _ \<Rightarrow> Inr True
      | Inl e \<Rightarrow> if e = AttributeError then Inr False else Inl e)"

text \<open>\<^verbatim>\<open>getattr(obj, a, None)\<close>: the default replaces an \<^verbatim>\<open>AttributeError\<close> only.\<close>

definition getattr_or_None :: "runtime \<Rightarrow> pyval \<Rightarrow> string \<Rightarrow> exn + pyval" where
  "getattr_or_None rt obj a =
     (case py_getattr rt obj a of
        Inr v \<Rightarrow> Inr v
      | Inl e \<Rightarrow> if e = AttributeError then Inr PNone else Inl e)"

subsection \<open>Truth value, \<^verbatim>\<open>int()\<close>, \<^verbatim>\<open>str()\<close>, iteration\<close>

definition py_truthy :: "pyval \<Rightarrow> bool" where
  "py_truthy v =
     (case v of
        PNone \<Rightarrow> False
      | PBool b \<Rightarrow> b
      | PInt n \<Rightarrow> n \<noteq> 0
      | PStr s \<Rightarrow> s \<noteq> []
      | PList xs \<Rightarrow> xs \<noteq> []
      | PDict kvs \<Rightarrow> kvs \<noteq> []
      | PObj _ \<Rightarrow> True)"

text \<open>\<^verbatim>\<open>x or d\<close>.\<close>

definition py_or :: "pyval \<Rightarrow> pyval \<Rightarrow> pyval" where
  "py_or x d = (if py_truthy x then x else d)"

text \<open>\<^verbatim>\<open>str.strip()\<close> removes the characters for which \<^verbatim>\<open>str.isspace\<close> holds from both ends.\<close>

definition py_isspace :: "char \<Rightarrow> bool" where
  "py_isspace c =
     (let n = (of_char c :: nat) in (9 \<le> n \<and> n \<le> 13) \<or> (28 \<le> n \<and> n \<le> 32) \<or> n = 133 \<or> n = 160)"

definition strip_with :: "(char \<Rightarrow> bool) \<Rightarrow> string \<Rightarrow> string" where
  "strip_with P s = rev (dropWhile P (rev (dropWhile P s)))"

definition strip :: "string \<Rightarrow> string" where
  "strip s = strip_with py_isspace s"

text \<open>\<^verbatim>\<open>int(s)\<close> of a string: surrounding white space (here without the separators
  28..31), an optional sign, then decimal digits, single underscores allowed between two
  digits.\<close>

definition int_space :: "char \<Rightarrow> bool" where
  "int_space c =
     (let n = (of_char c :: nat) in (9 \<le> n \<and> n \<le> 13) \<or> n = 32 \<or> n = 133 \<or> n = 160)"

definition digit_val :: "char \<Rightarrow> nat option" where
  "digit_val c =
     (let n = (of_char c :: nat) in if 48 \<le> n \<and> n \<le> 57 then Some (n - 48) else None)"

fun parse_digits :: "nat \<Rightarrow> string \<Rightarrow> nat option" where
  "parse_digits acc [] = Some acc"
| "parse_digits acc [c] =
     (case digit_val c of Some d \<Rightarrow> Some (10 * acc + d) | None \<Rightarrow> None)"
| "parse_digits acc (c # c' # cs) =
     (if c = CHR ''_''
      then (case digit_val c' of Some d \<Rightarrow> parse_digits (10 * acc + d) cs | None \<Rightarrow> None)
      else (case digit_val c of
              Some d \<Rightarrow> parse_digits (10 * acc + d) (c' # cs)
            | None \<Rightarrow> None))"

definition parse_nat :: "string \<Rightarrow> nat option" where
  "parse_nat s =
     (case s of
        [] \<Rightarrow> None
      | c # cs \<Rightarrow> (case digit_val c of Some d \<Rightarrow> parse_digits d cs | None \<Rightarrow> None))"

definition int_of_string :: "string \<Rightarrow> int option" where
  "int_of_string s =
     (case strip_with int_space s of
        [] \<Rightarrow> None
      | c # cs \<Rightarrow>
          if c = CHR ''-'' then map_option (\<lambda>n. - int n) (parse_nat cs)
          else if c = CHR ''+'' then map_option int (parse_nat cs)
          else map_option int (parse_nat (c # cs)))"

text \<open>\<^verbatim>\<open>int(v)\<close>: \<^verbatim>\<open>ValueError\<close> for a string that is no integer literal, \<^verbatim>\<open>TypeError\<close> for a
  value with no integer conversion.\<close>

definition py_int :: "pyval \<Rightarrow> exn + int" where
  "py_int v =
     (case v of
        PInt n \<Rightarrow> Inr n
      | PBool b \<Rightarrow> Inr (if b then 1 else 0)
      | PStr s \<Rightarrow> (case int_of_string s of Some n \<Rightarrow> Inr n | None \<Rightarrow> Inl ValueError)
      | _ \<Rightarrow> Inl TypeError)"

text \<open>\<^verbatim>\<open>try: x = int(v)\<close> / \<^verbatim>\<open>except Exception: x = fallback\<close>. Both exceptions of
  \<open>py_int\<close> are caught.\<close>

definition int_or :: "int \<Rightarrow> pyval \<Rightarrow> int" where
  "int_or fallback v = (case py_int v of Inr n \<Rightarrow> n | Inl _ \<Rightarrow> fallback)"

text \<open>Decimal printing of an integer, as \<^verbatim>\<open>str(n)\<close> and an f-string do.\<close>

fun show_nat :: "nat \<Rightarrow> string" where
  "show_nat n =
     (if n < 10 then [char_of (48 + n)] else show_nat (n div 10) @ [char_of (48 + n mod 10)])"

declare show_nat.simps [simp del]

definition show_int :: "int \<Rightarrow> string" where
  "show_int i = (if i < 0 then CHR ''-'' # show_nat (nat (- i)) else show_nat (nat i))"

definition py_str :: "runtime \<Rightarrow> pyval \<Rightarrow> string" where
  "py_str rt v =
     (case v of
        PStr s \<Rightarrow> s
      | PInt n \<Rightarrow> show_int n
      | PBool b \<Rightarrow> (if b then ''True'' else ''False'')
      | PNone \<Rightarrow> ''None''
      | _ \<Rightarrow> str_other rt v)"

text \<open>Iterating a value in a comprehension: a list gives its elements, a string its
  characters, a dict its keys; the other values are not iterable.\<close>

definition py_iter :: "pyval \<Rightarrow> exn + pyval list" where
  "py_iter v =
     (case v of
        PList xs \<Rightarrow> Inr xs
      | PStr s \<Rightarrow> Inr (map (\<lambda>c. PStr [c]) s)
      | PDict kvs \<Rightarrow> Inr (map (\<lambda>kv. PStr (fst kv)) kvs)
      | _ \<Rightarrow> Inl TypeError)"

subsection \<open>\<^verbatim>\<open>html.escape\<close>\<close>

text \<open>\<^verbatim>\<open>html.escape(s)\<close> replaces \<^verbatim>\<open>&\<close> first and then the four other characters, which
  amounts to one replacement per character. Its argument must have a \<^verbatim>\<open>replace\<close> method:
  a value other than a string raises (no value of the model has a callable attribute).\<close>

definition escape_char :: "char \<Rightarrow> string" where
  "escape_char c =
     (if c = CHR ''&'' then ''&amp;''
      else if c = CHR ''<'' then ''&lt;''
      else if c = CHR ''>'' then ''&gt;''
      else if c = CHR 0x22 then ''&quot;''
      else if c = CHR 0x27 then ''&#x27;''
      else [c])"

definition escape :: "string \<Rightarrow> string" where
  "escape s = concat (map escape_char s)"

definition escape_val :: "pyval \<Rightarrow> exn + string" where
  "escape_val v =
     (case v of
        PStr s \<Rightarrow> Inr (escape s)
      | PObj tbl \<Rightarrow>
          (case map_of tbl ''replace'' of
             None \<Rightarrow> Inl AttributeError
           | Some (Inl e) \<Rightarrow> Inl e
           | Some (Inr _) \<Rightarrow> Inl TypeError)
      | _ \<Rightarrow> Inl AttributeError)"

section \<open>The helpers of the script\<close>

subsection \<open>\<^verbatim>\<open>_as_list\<close>\<close>

text \<open>
  \<^verbatim>\<open>
  flat = []
  for item in maybe_iterable:
      if isinstance(item, list): flat.extend(item)
      else: flat.append(item)
  return flat
  \<close>
  The iterable is given by the finite list of the items it produces; \<open>flat\<close> is the
  accumulator of the loop.
\<close>

definition as_list_step :: "pyval list \<Rightarrow> pyval \<Rightarrow> pyval list" where
  "as_list_step flat item = (case item of PList ys \<Rightarrow> flat @ ys | _ \<Rightarrow> flat @ [item])"

definition as_list :: "pyval list \<Rightarrow> pyval list" where
  "as_list maybe_iterable = foldl as_list_step [] maybe_iterable"

text \<open>What one produced item contributes to the result.\<close>

definition contribution :: "pyval \<Rightarrow> pyval list" where
  "contribution item = (case item of PList ys \<Rightarrow> ys | _ \<Rightarrow> [item])"

subsection \<open>\<^verbatim>\<open>_get\<close>\<close>

text \<open>
  \<^verbatim>\<open>
  if hasattr(obj, attr):
      try: return getattr(obj, attr)
      except Exception: pass
  if isinstance(obj, dict): return obj.get(attr, default)
  return default
  \<close>
\<close>

definition get_rest :: "pyval \<Rightarrow> string \<Rightarrow> pyval \<Rightarrow> pyval" where
  "get_rest obj attr dflt =
     (case obj of
        PDict kvs \<Rightarrow> (case map_of kvs attr of Some v \<Rightarrow> v | None \<Rightarrow> dflt)
      | _ \<Rightarrow> dflt)"

definition get :: "runtime \<Rightarrow> pyval \<Rightarrow> string \<Rightarrow> pyval \<Rightarrow> exn + pyval" where
  "get rt obj attr dflt =
     (case hasattr rt obj attr of
        Inl e \<Rightarrow> Inl e
      | Inr h \<Rightarrow>
          if h then
            (case py_getattr rt obj attr of
               Inr v \<Rightarrow> Inr v
             | Inl e \<Rightarrow> if is_Exception e then Inr (get_rest obj attr dflt) else Inl e)
          else Inr (get_rest obj attr dflt))"

subsection \<open>\<^verbatim>\<open>_format_due\<close>\<close>

text \<open>
  \<^verbatim>\<open>
  if not due_obj: return ""
  s = getattr(due_obj, "string", None) or getattr(due_obj, "datetime", None)
      or getattr(due_obj, "date", None)
  if s: return str(s)
  if isinstance(due_obj, dict):
      return str(due_obj.get("string") or due_obj.get("datetime")
                 or due_obj.get("date") or "")
  return ""
  \<close>
  \<^verbatim>\<open>or\<close> evaluates its right operand only when the left one is falsy.
\<close>

definition due_attr :: "runtime \<Rightarrow> pyval \<Rightarrow> exn + pyval" where
  "due_attr rt due_obj =
     (case getattr_or_None rt due_obj ''string'' of
        Inl e \<Rightarrow> Inl e
      | Inr a \<Rightarrow>
          if py_truthy a then Inr a
          else
            (case getattr_or_None rt due_obj ''datetime'' of
               Inl e \<Rightarrow> Inl e
             | Inr b \<Rightarrow>
                 if py_truthy b then Inr b else getattr_or_None rt due_obj ''date''))"

text \<open>\<^verbatim>\<open>d.get(k)\<close>.\<close>

definition dict_get :: "(string \<times> pyval) list \<Rightarrow> string \<Rightarrow> pyval" where
  "dict_get kvs k = (case map_of kvs k of Some v \<Rightarrow> v | None \<Rightarrow> PNone)"

definition format_due :: "runtime \<Rightarrow> pyval \<Rightarrow> exn + string" where
  "format_due rt due_obj =
     (if \<not> py_truthy due_obj then Inr ''''
      else
        (case due_attr rt due_obj of
           Inl e \<Rightarrow> Inl e
         | Inr s \<Rightarrow>
             if py_truthy s then Inr (py_str rt s)
             else
               (case due_obj of
                  PDict kvs \<Rightarrow>
                    Inr (py_str rt
                      (py_or (dict_get kvs ''string'')
                        (py_or (dict_get kvs ''datetime'')
                          (py_or (dict_get kvs ''date'') (PStr '''')))))
                | _ \<Rightarrow> Inr '''')))"

section \<open>The build\<close>

subsection \<open>Sorting the tasks by \<^verbatim>\<open>order\<close>, then \<^verbatim>\<open>id\<close>\<close>

text \<open>
  \<^verbatim>\<open>
  def sort_key(t):
      order = _get(t, "order", 0) or 0
      try: order = int(order)
      except Exception: order = 0
      tid = str(_get(t, "id", "")) or ""
      return (order, tid)
  tasks.sort(key=sort_key)
  \<close>
\<close>

definition sort_key_task :: "runtime \<Rightarrow> pyval \<Rightarrow> exn + (int \<times> string)" where
  "sort_key_task rt t =
     (case get rt t ''order'' (PInt 0) of
        Inl e \<Rightarrow> Inl e
      | Inr ord \<Rightarrow>
          (let order = int_or 0 (py_or ord (PInt 0)) in
           case get rt t ''id'' (PStr '''') of
             Inl e \<Rightarrow> Inl e
           | Inr i \<Rightarrow>
               (let s = py_str rt i; tid = (if s \<noteq> [] then s else '''')
                in Inr (order, tid))))"

text \<open>\<^verbatim>\<open>list.sort(key=f)\<close> computes the key of every element, in order, and then sorts the
  elements by their keys alone with a stable sort; an exception of a key leaves the sort.
  The stable sort is \<open>sort_key\<close> of the list library.\<close>

fun sort_keys :: "runtime \<Rightarrow> pyval list \<Rightarrow> exn + (int \<times> string) list" where
  "sort_keys rt [] = Inr []"
| "sort_keys rt (t # ts) =
     (case sort_key_task rt t of
        Inl e \<Rightarrow> Inl e
      | Inr k \<Rightarrow> (case sort_keys rt ts of Inl e \<Rightarrow> Inl e | Inr ks \<Rightarrow> Inr (k # ks)))"

definition sort_tasks :: "runtime \<Rightarrow> pyval list \<Rightarrow> exn + pyval list" where
  "sort_tasks rt tasks =
     (case sort_keys rt tasks of
        Inl e \<Rightarrow> Inl e
      | Inr ks \<Rightarrow> Inr (map snd (sort_key fst (zip ks tasks))))"

subsection \<open>The section names\<close>

text \<open>
  \<^verbatim>\<open>
  section_name_by_id = {}
  try:
      sections = _as_list(sections_iter)
      section_name_by_id = { str(_get(s, "id")): _get(s, "name", "") for s in sections }
  except Exception: pass
  \<close>
  A dict is an association list in insertion order: \<open>AList.update\<close> replaces the value of
  a key that is present and appends a new key.
\<close>

fun section_entries :: "runtime \<Rightarrow> pyval list \<Rightarrow> exn + (string \<times> pyval) list" where
  "section_entries rt [] = Inr []"
| "section_entries rt (s # ss) =
     (case get rt s ''id'' PNone of
        Inl e \<Rightarrow> Inl e
      | Inr i \<Rightarrow>
          (case get rt s ''name'' (PStr '''') of
             Inl e \<Rightarrow> Inl e
           | Inr n \<Rightarrow>
               (case section_entries rt ss of
                  Inl e \<Rightarrow> Inl e
                | Inr rest \<Rightarrow> Inr ((py_str rt i, n) # rest))))"

definition section_name_by_id :: "runtime \<Rightarrow> pyval list \<Rightarrow> exn + (string \<times> pyval) list" where
  "section_name_by_id rt sections_iter =
     (case section_entries rt (as_list sections_iter) of
        Inr es \<Rightarrow> Inr (foldl (\<lambda>d kv. AList.update (fst kv) (snd kv) d) [] es)
      | Inl e \<Rightarrow> if is_Exception e then Inr [] else Inl e)"

subsection \<open>The view models\<close>

record view_model =
  vm_content :: string
  vm_due :: string
  vm_labels :: "string list"
  vm_priority_class :: string
  vm_url :: pyval
  vm_section :: string

text \<open>
  \<^verbatim>\<open>
  prio = _get(t, "priority", 3)
  try: prio = int(prio)
  except Exception: prio = 3
  \<close>
\<close>

definition task_priority :: "runtime \<Rightarrow> pyval \<Rightarrow> exn + int" where
  "task_priority rt t =
     (case get rt t ''priority'' (PInt 3) of
        Inl e \<Rightarrow> Inl e
      | Inr prio \<Rightarrow> Inr (int_or 3 prio))"

text \<open>
  \<^verbatim>\<open>
  section_id = _get(t, "section_id")
  section_name = ""
  if section_id is not None:
      section_name = section_name_by_id.get(str(section_id), "") or ""
  \<close>
\<close>

definition task_section_name :: "runtime \<Rightarrow> (string \<times> pyval) list \<Rightarrow> pyval \<Rightarrow> pyval" where
  "task_section_name rt names section_id =
     (if section_id \<noteq> PNone
      then py_or (case map_of names (py_str rt section_id) of Some v \<Rightarrow> v | None \<Rightarrow> PStr '''')
             (PStr '''')
      else PStr '''')"

text \<open>The body of the loop over the tasks: \<open>None\<close> for a task that \<^verbatim>\<open>continue\<close> skips,
  the view model that is appended otherwise. The reads happen in the order of the source,
  so the first exception is the one the script raises.\<close>

definition build_view_model ::
  "runtime \<Rightarrow> (string \<times> pyval) list \<Rightarrow> int set \<Rightarrow> pyval \<Rightarrow> exn + view_model option" where
  "build_view_model rt names exclude_set t =
     (case task_priority rt t of
        Inl e \<Rightarrow> Inl e
      | Inr prio \<Rightarrow>
     if prio \<in> exclude_set then Inr None
     else
     (case get rt t ''content'' (PStr '''') of
        Inl e \<Rightarrow> Inl e
      | Inr c \<Rightarrow>
     (case escape_val (py_or c (PStr '''')) of
        Inl e \<Rightarrow> Inl e
      | Inr content \<Rightarrow>
     (case get rt t ''due'' PNone of
        Inl e \<Rightarrow> Inl e
      | Inr d \<Rightarrow>
     (case format_due rt d of
        Inl e \<Rightarrow> Inl e
      | Inr due_str \<Rightarrow>
     (case get rt t ''labels'' (PList []) of
        Inl e \<Rightarrow> Inl e
      | Inr l \<Rightarrow>
     (case py_iter (py_or l (PList [])) of
        Inl e \<Rightarrow> Inl e
      | Inr xs \<Rightarrow>
     (case get rt t ''section_id'' PNone of
        Inl e \<Rightarrow> Inl e
      | Inr section_id \<Rightarrow>
     (case task_priority rt t of
        Inl e \<Rightarrow> Inl e
      | Inr prio2 \<Rightarrow>
     (case get rt t ''url'' (PStr '''') of
        Inl e \<Rightarrow> Inl e
      | Inr u \<Rightarrow>
     (case escape_val (task_section_name rt names section_id) of
        Inl e \<Rightarrow> Inl e
      | Inr sec \<Rightarrow>
          Inr (Some
            \<lparr>vm_content = content,
             vm_due = escape due_str,
             vm_labels = map (\<lambda>x. escape (py_str rt x)) xs,
             vm_priority_class = ''p'' @ show_int prio2,
             vm_url = py_or u (PStr ''''),
             vm_section = (if sec \<noteq> [] then sec else ''Unassigned'')\<rparr>))))))))))))"

fun build_view_models ::
  "runtime \<Rightarrow> (string \<times> pyval) list \<Rightarrow> int set \<Rightarrow> pyval list \<Rightarrow> exn + view_model list" where
  "build_view_models rt names exclude_set [] = Inr []"
| "build_view_models rt names exclude_set (t # ts) =
     (case build_view_model rt names exclude_set t of
        Inl e \<Rightarrow> Inl e
      | Inr r \<Rightarrow>
          (case build_view_models rt names exclude_set ts of
             Inl e \<Rightarrow> Inl e
           | Inr vms \<Rightarrow> Inr (case r of None \<Rightarrow> vms | Some vm \<Rightarrow> vm # vms)))"

subsection \<open>The columns\<close>

text \<open>\<^verbatim>\<open>s.split("|")\<close>: the pieces between the separators, empty ones included.\<close>

fun split_on :: "char \<Rightarrow> string \<Rightarrow> string list" where
  "split_on sep [] = [[]]"
| "split_on sep (c # cs) =
     (if c = sep then [] # split_on sep cs
      else (case split_on sep cs of p # ps \<Rightarrow> (c # p) # ps | [] \<Rightarrow> [[c]]))"

text \<open>
  \<^verbatim>\<open>
  discovered = []
  for t in view_models:
      sec = t["section"]
      if sec and sec not in discovered: discovered.append(sec)
  \<close>
\<close>

definition discover_step :: "string list \<Rightarrow> view_model \<Rightarrow> string list" where
  "discover_step discovered t =
     (let sec = vm_section t
      in if sec \<noteq> [] \<and> sec \<notin> set discovered then discovered @ [sec] else discovered)"

definition discover :: "view_model list \<Rightarrow> string list" where
  "discover vms = foldl discover_step [] vms"

text \<open>
  \<^verbatim>\<open>
  while len(col_titles) < 5:
      col_titles.append(f"Column {len(col_titles)+1}")
  \<close>
\<close>

function pad_columns :: "string list \<Rightarrow> string list" where
  "pad_columns col_titles =
     (if length col_titles < 5
      then pad_columns (col_titles @ [''Column '' @ show_int (int (length col_titles) + 1)])
      else col_titles)"
  by pat_completeness auto
termination
  by (relation "measure (\<lambda>col_titles. 5 - length col_titles)") auto

declare pad_columns.simps [simp del]

text \<open>
  \<^verbatim>\<open>
  configured = (os.getenv("SECTIONS") or "").strip()
  if configured: col_titles = [s.strip() for s in configured.split("|") if s.strip()]
  else: ...; col_titles = discovered[:5]
  \<close>
  The environment variable is \<open>None\<close> when it is not set.
\<close>

definition resolve_columns :: "string option \<Rightarrow> view_model list \<Rightarrow> string list" where
  "resolve_columns sections_env vms =
     (let configured = strip (case sections_env of Some s \<Rightarrow> s | None \<Rightarrow> '''')
      in pad_columns
           (if configured \<noteq> []
            then map strip (filter (\<lambda>s. strip s \<noteq> []) (split_on CHR ''|'' configured))
            else take 5 (discover vms)))"

subsection \<open>The buckets\<close>

definition other_col :: string where
  "other_col = ''Other''"

text \<open>
  \<^verbatim>\<open>
  buckets = {title: [] for title in col_titles}
  buckets[other_col] = []
  \<close>
\<close>

definition init_buckets :: "string list \<Rightarrow> (string \<times> view_model list) list" where
  "init_buckets col_titles =
     AList.update other_col [] (foldl (\<lambda>b title. AList.update title [] b) [] col_titles)"

text \<open>
  \<^verbatim>\<open>
  for t in view_models:
      sec = t["section"] or "Unassigned"
      if sec in title_set: buckets[sec].append(t)
      else: buckets[other_col].append(t)
  \<close>
  \<^verbatim>\<open>buckets[k]\<close> raises \<^verbatim>\<open>KeyError\<close> for a key that is not in the dict.
\<close>

definition bucket_key :: "string list \<Rightarrow> view_model \<Rightarrow> string" where
  "bucket_key col_titles t =
     (let sec = (if vm_section t \<noteq> [] then vm_section t else ''Unassigned'')
      in if sec \<in> set col_titles then sec else other_col)"

fun fill_buckets ::
  "string list \<Rightarrow> view_model list \<Rightarrow> (string \<times> view_model list) list
     \<Rightarrow> exn + (string \<times> view_model list) list" where
  "fill_buckets col_titles [] buckets = Inr buckets"
| "fill_buckets col_titles (t # ts) buckets =
     (let k = bucket_key col_titles t
      in case map_of buckets k of
           None \<Rightarrow> Inl KeyError
         | Some l \<Rightarrow> fill_buckets col_titles ts (AList.update k (l @ [t]) buckets))"

text \<open>
  \<^verbatim>\<open>
  def vm_sort_key(t):
      try: pr = int(t["priority_class"][1:])
      except Exception: pr = 3
      return (pr, t["due"], t["content"])
  for k in buckets: buckets[k].sort(key=vm_sort_key)
  \<close>
  Tuples compare lexicographically and strings by code points, a proper prefix first.
\<close>

definition vm_sort_key :: "view_model \<Rightarrow> int \<times> string \<times> string" where
  "vm_sort_key t = (int_or 3 (PStr (drop 1 (vm_priority_class t))), vm_due t, vm_content t)"

definition sort_bucket :: "view_model list \<Rightarrow> view_model list" where
  "sort_bucket b = sort_key vm_sort_key b"

definition sort_buckets ::
  "(string \<times> view_model list) list \<Rightarrow> (string \<times> view_model list) list" where
  "sort_buckets buckets = map (\<lambda>kb. (fst kb, sort_bucket (snd kb))) buckets"

subsection \<open>\<^verbatim>\<open>build\<close>\<close>

text \<open>
  What \<^verbatim>\<open>build\<close> hands to the template (\<open>columns\<close>, \<open>tasks_by_section\<close>) and the number
  it prints (\<open>open_tasks\<close>, \<^verbatim>\<open>len(view_models)\<close>). The set of excluded priorities and the
  \<^verbatim>\<open>SECTIONS\<close> variable come from the environment; the task and section pages come from
  the API.
  \<^verbatim>\<open>
  if not buckets[other_col]:
      buckets.pop(other_col, None); ordered_titles = col_titles
  else: ordered_titles = col_titles + [other_col]
  \<close>
\<close>

record board =
  columns :: "string list"
  tasks_by_section :: "(string \<times> view_model list) list"
  open_tasks :: nat

definition layout :: "string option \<Rightarrow> view_model list \<Rightarrow> exn + board" where
  "layout sections_env view_models =
     (let col_titles = resolve_columns sections_env view_models
      in case fill_buckets col_titles view_models (init_buckets col_titles) of
           Inl e \<Rightarrow> Inl e
         | Inr filled \<Rightarrow>
             (let buckets = sort_buckets filled
              in case map_of buckets other_col of
                   None \<Rightarrow> Inl KeyError
                 | Some other \<Rightarrow>
                     if other = []
                     then Inr \<lparr>columns = col_titles,
                               tasks_by_section = AList.delete other_col buckets,
                               open_tasks = length view_models\<rparr>
                     else Inr \<lparr>columns = col_titles @ [other_col],
                               tasks_by_section = buckets,
                               open_tasks = length view_models\<rparr>))"

definition build ::
  "runtime \<Rightarrow> int set \<Rightarrow> string option \<Rightarrow> pyval list \<Rightarrow> pyval list \<Rightarrow> exn + board" where
  "build rt exclude_set sections_env tasks_iter sections_iter =
     (let tasks = as_list tasks_iter
      in case section_name_by_id rt sections_iter of
           Inl e \<Rightarrow> Inl e
         | Inr names \<Rightarrow>
             (case sort_tasks rt tasks of
                Inl e \<Rightarrow> Inl e
              | Inr sorted_tasks \<Rightarrow>
                  (case build_view_models rt names exclude_set sorted_tasks of
                     Inl e \<Rightarrow> Inl e
                   | Inr view_models \<Rightarrow> layout sections_env view_models)))"

section \<open>Notions used to state the properties\<close>

text \<open>The three sub-fields of a due date, in the order of preference, and the candidates
  a due date offers: the attributes that can be read, then the keys that are present.\<close>

definition due_fields :: "string list" where
  "due_fields = [''string'', ''datetime'', ''date'']"

definition attr_candidates :: "runtime \<Rightarrow> pyval \<Rightarrow> pyval list" where
  "attr_candidates rt due_obj =
     concat (map (\<lambda>a. case py_getattr rt due_obj a of Inr v \<Rightarrow> [v] | Inl _ \<Rightarrow> []) due_fields)"

definition key_candidates :: "pyval \<Rightarrow> pyval list" where
  "key_candidates due_obj =
     (case due_obj of
        PDict kvs \<Rightarrow>
          concat (map (\<lambda>k. case map_of kvs k of Some v \<Rightarrow> [v] | None \<Rightarrow> []) due_fields)
      | _ \<Rightarrow> [])"

text \<open>The titles in the order in which they are first seen, the synthetic titles that
  pad a list of \<open>n\<close> titles, and the titles of a configured \<^verbatim>\<open>SECTIONS\<close> string.\<close>

definition first_seen :: "'a list \<Rightarrow> 'a list" where
  "first_seen xs = rev (remdups (rev xs))"

definition column_padding :: "nat \<Rightarrow> string list" where
  "column_padding n = map (\<lambda>i. ''Column '' @ show_nat i) [Suc n..<6]"

definition configured_titles :: "string \<Rightarrow> string list" where
  "configured_titles configured =
     filter (\<lambda>s. s \<noteq> []) (map strip (split_on CHR ''|'' configured))"

text \<open>The sort key of a task whose fields can be read (the value for a task whose read
  raises is never used: the sort then raises as well).\<close>

definition key_or_default :: "runtime \<Rightarrow> pyval \<Rightarrow> int \<times> string" where
  "key_or_default rt t = (case sort_key_task rt t of Inr k \<Rightarrow> k | Inl _ \<Rightarrow> (0, []))"

text \<open>Reading the candidates in the order of preference: the first truthy value that a
  read gives, \<open>None\<close> when no read gives one, and the exception of the first read that
  raises anything but \<^verbatim>\<open>AttributeError\<close> before a truthy value is found (an
  \<^verbatim>\<open>AttributeError\<close> means that the sub-field is absent).\<close>

fun first_truthy :: "(exn + pyval) list \<Rightarrow> exn + pyval option" where
  "first_truthy [] = Inr None"
| "first_truthy (r # rs) =
     (case r of
        Inr v \<Rightarrow> if py_truthy v then Inr (Some v) else first_truthy rs
      | Inl e \<Rightarrow> if e = AttributeError then first_truthy rs else Inl e)"

text \<open>The view models that \<open>build\<close> hands to the layout (the empty list when an earlier
  stage raises).\<close>

definition built_view_models ::
  "runtime \<Rightarrow> int set \<Rightarrow> pyval list \<Rightarrow> pyval list \<Rightarrow> view_model list" where
  "built_view_models rt exclude_set tasks_iter sections_iter =
     (case section_name_by_id rt sections_iter of
        Inl _ \<Rightarrow> []
      | Inr names \<Rightarrow>
          (case sort_tasks rt (as_list tasks_iter) of
             Inl _ \<Rightarrow> []
           | Inr ts \<Rightarrow>
               (case build_view_models rt names exclude_set ts of
                  Inl _ \<Rightarrow> []
                | Inr vms \<Rightarrow> vms)))"

text \<open>The keys of the buckets in the order of the dict, the view models of one column and
  those of the overflow column in the order of the list of view models, and the buckets
  with the view models of every column sorted.\<close>

definition bucket_keys :: "string list \<Rightarrow> string list" where
  "bucket_keys col_titles = map fst (init_buckets col_titles)"

definition column_tasks :: "string list \<Rightarrow> view_model list \<Rightarrow> string \<Rightarrow> view_model list" where
  "column_tasks col_titles vms k = filter (\<lambda>t. bucket_key col_titles t = k) vms"

definition overflow :: "string list \<Rightarrow> view_model list \<Rightarrow> view_model list" where
  "overflow col_titles vms = filter (\<lambda>t. bucket_key col_titles t = other_col) vms"

definition sorted_buckets ::
  "string list \<Rightarrow> view_model list \<Rightarrow> (string \<times> view_model list) list" where
  "sorted_buckets col_titles vms =
     map (\<lambda>k. (k, sort_bucket (column_tasks col_titles vms k))) (bucket_keys col_titles)"

text \<open>A task is excluded when its priority, read with the default 3 and turned into an
  integer with the fallback 3, is in the set of excluded priorities (a task whose
  priority cannot be read is not excluded: the loop raises). The priority of a task, and
  the view model of a task (\<open>None\<close> when the task is skipped or a read raises).\<close>

definition excluded :: "runtime \<Rightarrow> int set \<Rightarrow> pyval \<Rightarrow> bool" where
  "excluded rt exclude_set t =
     (case task_priority rt t of Inr p \<Rightarrow> p \<in> exclude_set | Inl _ \<Rightarrow> False)"

definition priority_or_default :: "runtime \<Rightarrow> pyval \<Rightarrow> int" where
  "priority_or_default rt t = (case task_priority rt t of Inr p \<Rightarrow> p | Inl _ \<Rightarrow> 3)"

definition view_model_or_none ::
  "runtime \<Rightarrow> (string \<times> pyval) list \<Rightarrow> int set \<Rightarrow> pyval \<Rightarrow> view_model option" where
  "view_model_or_none rt names exclude_set t =
     (case build_view_model rt names exclude_set t of Inr r \<Rightarrow> r | Inl _ \<Rightarrow> None)"

section \<open>Properties\<close>

subsection \<open>The flattener\<close>

lemma foldl_as_list_step:
  "foldl as_list_step acc xs = acc @ concat (map contribution xs)"
proof (induction xs arbitrary: acc)
  case Nil
  show ?case by simp
next
  case (Cons x xs)
  have "as_list_step acc x = acc @ contribution x"
    by (cases x) (simp_all add: as_list_step_def contribution_def)
  with Cons show ?case by simp
qed

text \<open>
  C9. The flattener returns the concatenation, in order, of what each produced item
  contributes: the elements of an item that is a list (one level only: an element that
  is a list again stays one element), and the item itself otherwise.
\<close>

theorem as_list_flattens_one_level:
  "as_list xs = concat (map contribution xs)
   \<and> contribution (PList ys) = ys
   \<and> contribution PNone = [PNone]
   \<and> contribution (PBool b) = [PBool b]
   \<and> contribution (PInt n) = [PInt n]
   \<and> contribution (PStr s) = [PStr s]
   \<and> contribution (PDict kvs) = [PDict kvs]
   \<and> contribution (PObj tbl) = [PObj tbl]
   \<and> as_list [PInt 1, PList [PInt 2, PList [PInt 3]], PInt 4]
       = [PInt 1, PInt 2, PList [PInt 3], PInt 4]"
  by (simp add: as_list_def foldl_as_list_step contribution_def as_list_step_def)

subsection \<open>The field accessor\<close>

text \<open>What \<open>get\<close> does, by the outcome of reading the attribute: the value when the read
  succeeds, the dict entry or the default when it raises \<^verbatim>\<open>AttributeError\<close>, and the
  exception itself in every other case, since \<^verbatim>\<open>hasattr\<close> stands outside the
  \<^verbatim>\<open>try\<close>.\<close>

lemma get_cases:
  "get rt obj a d =
     (case py_getattr rt obj a of
        Inr v \<Rightarrow> Inr v
      | Inl e \<Rightarrow> if e = AttributeError then Inr (get_rest obj a d) else Inl e)"
  by (simp add: get_def hasattr_def split: sum.splits)

lemma get_dict_no_builtin:
  "builtin_attr rt (PDict kvs) a = None \<Longrightarrow>
   get rt (PDict kvs) a d = Inr (case map_of kvs a of Some v \<Rightarrow> v | None \<Rightarrow> d)"
  by (simp add: get_cases py_getattr_def get_rest_def)

text \<open>
  C8. The accessor is meant to read a field safely (its docstring, and the
  \<^verbatim>\<open>try\<close>/\<^verbatim>\<open>except Exception\<close> around \<^verbatim>\<open>getattr\<close>), but the probe \<^verbatim>\<open>hasattr\<close> is not
  guarded: a record whose property raises anything but \<^verbatim>\<open>AttributeError\<close> makes the
  accessor raise. Here the \<^verbatim>\<open>priority\<close> property of a task raises \<^verbatim>\<open>ValueError\<close>, and
  the read with default 3 raises \<^verbatim>\<open>ValueError\<close> under every runtime.
\<close>

theorem get_raises_from_probe:
  "get rt (PObj [(''priority'', Inl ValueError)]) ''priority'' (PInt 3) = Inl ValueError"
  by (simp add: get_def hasattr_def py_getattr_def)

subsection \<open>The due-date formatter\<close>

lemma py_truthy_None [simp]: "\<not> py_truthy PNone"
  by (simp add: py_truthy_def)

lemma py_truthy_empty_str [simp]: "\<not> py_truthy (PStr [])"
  by (simp add: py_truthy_def)

lemma format_due_falsy: "\<not> py_truthy due_obj \<Longrightarrow> format_due rt due_obj = Inr ''''"
  by (simp add: format_due_def)

lemma getattr_or_None_no_raise:
  assumes "\<forall>e. py_getattr rt d a = Inl e \<longrightarrow> e = AttributeError"
  shows "getattr_or_None rt d a = Inr (case py_getattr rt d a of Inr v \<Rightarrow> v | Inl _ \<Rightarrow> PNone)"
  using assms by (auto simp: getattr_or_None_def split: sum.splits)

lemma due_attr_find:
  assumes "\<forall>a\<in>set due_fields. \<forall>e. py_getattr rt d a = Inl e \<longrightarrow> e = AttributeError"
  shows "due_attr rt d =
           Inr (case find py_truthy (attr_candidates rt d) of
                  Some v \<Rightarrow> v
                | None \<Rightarrow> (case py_getattr rt d ''date'' of Inr v \<Rightarrow> v | Inl _ \<Rightarrow> PNone))"
proof -
  have s: "\<forall>e. py_getattr rt d ''string'' = Inl e \<longrightarrow> e = AttributeError"
    and t: "\<forall>e. py_getattr rt d ''datetime'' = Inl e \<longrightarrow> e = AttributeError"
    and u: "\<forall>e. py_getattr rt d ''date'' = Inl e \<longrightarrow> e = AttributeError"
    using assms by (simp_all add: due_fields_def)
  show ?thesis
    unfolding due_attr_def attr_candidates_def due_fields_def
      getattr_or_None_no_raise[OF s] getattr_or_None_no_raise[OF t] getattr_or_None_no_raise[OF u]
    by (simp split: sum.splits)
qed

lemma key_chain_find:
  "py_or (dict_get kvs ''string'')
     (py_or (dict_get kvs ''datetime'') (py_or (dict_get kvs ''date'') (PStr '''')))
   = (case find py_truthy (key_candidates (PDict kvs)) of Some v \<Rightarrow> v | None \<Rightarrow> PStr '''')"
  by (simp add: key_candidates_def due_fields_def py_or_def dict_get_def split: option.splits)

lemma find_app:
  "find P (xs @ ys) = (case find P xs of None \<Rightarrow> find P ys | Some x \<Rightarrow> Some x)"
  by (induction xs) simp_all

lemma due_attr_first_truthy:
  "first_truthy (map (py_getattr rt d) due_fields) =
     (case due_attr rt d of
        Inl e \<Rightarrow> Inl e
      | Inr s \<Rightarrow> if py_truthy s then Inr (Some s) else Inr None)"
  by (auto simp: due_attr_def getattr_or_None_def due_fields_def split: sum.splits)

lemma format_due_total:
  "format_due rt due_obj =
     (if \<not> py_truthy due_obj then Inr ''''
      else
        (case first_truthy (map (py_getattr rt due_obj) due_fields) of
           Inl e \<Rightarrow> Inl e
         | Inr (Some v) \<Rightarrow> Inr (py_str rt v)
         | Inr None \<Rightarrow>
             Inr (case find py_truthy (key_candidates due_obj) of
                    Some v \<Rightarrow> py_str rt v
                  | None \<Rightarrow> '''')))"
proof (cases "py_truthy due_obj")
  case False
  then show ?thesis by (simp add: format_due_def)
next
  case True
  show ?thesis
  proof (cases "due_attr rt due_obj")
    case (Inl e)
    with True show ?thesis by (simp add: format_due_def due_attr_first_truthy)
  next
    case (Inr s)
    show ?thesis
    proof (cases "py_truthy s")
      case t: True
      with True Inr show ?thesis by (simp add: format_due_def due_attr_first_truthy)
    next
      case f: False
      show ?thesis
      proof (cases due_obj)
        case (PDict kvs)
        with True Inr f show ?thesis
          by (simp add: format_due_def due_attr_first_truthy key_chain_find py_str_def
              split: option.splits)
      qed (use True Inr f in \<open>simp_all add: format_due_def due_attr_first_truthy key_candidates_def\<close>)
    qed
  qed
qed

lemma format_due_readable:
  assumes "\<forall>a\<in>set due_fields. \<forall>e. py_getattr rt due_obj a = Inl e \<longrightarrow> e = AttributeError"
  shows "format_due rt due_obj =
           Inr (if py_truthy due_obj
                then (case find py_truthy (attr_candidates rt due_obj @ key_candidates due_obj) of
                        Some v \<Rightarrow> py_str rt v
                      | None \<Rightarrow> '''')
                else '''')"
proof (cases "py_truthy due_obj")
  case False
  then show ?thesis by (simp add: format_due_def)
next
  case True
  show ?thesis
  proof (cases "find py_truthy (attr_candidates rt due_obj)")
    case (Some v)
    then have "py_truthy v" by (auto simp: find_Some_iff)
    with True Some show ?thesis
      by (simp add: format_due_def due_attr_find[OF assms] find_app)
  next
    case None
    define w where "w = (case py_getattr rt due_obj ''date'' of Inr v \<Rightarrow> v | Inl _ \<Rightarrow> PNone)"
    have falsy: "\<not> py_truthy w"
      using None
      by (auto simp: w_def find_None_iff attr_candidates_def due_fields_def split: sum.splits)
    have da: "due_attr rt due_obj = Inr w"
      using None by (simp add: due_attr_find[OF assms] w_def)
    have fd: "format_due rt due_obj =
                (case due_obj of
                   PDict kvs \<Rightarrow>
                     Inr (py_str rt
                       (case find py_truthy (key_candidates (PDict kvs)) of
                          Some v \<Rightarrow> v | None \<Rightarrow> PStr ''''))
                 | _ \<Rightarrow> Inr '''')"
      using True falsy by (simp add: format_due_def da key_chain_find split: pyval.splits)
    show ?thesis
    proof (cases due_obj)
      case (PDict kvs)
      then show ?thesis
        using True None fd by (simp add: find_app py_str_def split: option.splits)
    qed (use True None fd in \<open>simp_all add: find_app key_candidates_def\<close>)
  qed
qed

text \<open>
  C7. The formatter returns the empty string for a falsy due date (\<^verbatim>\<open>None\<close>, empty).
  Otherwise it reads the attributes \<^verbatim>\<open>string\<close>, \<^verbatim>\<open>datetime\<close>, \<^verbatim>\<open>date\<close> in this order,
  passing over an absent or falsy one, and returns the string of the first truthy value;
  a read that is reached and raises anything but \<^verbatim>\<open>AttributeError\<close> makes the formatter
  raise that exception. When no attribute is truthy it returns the string of the first
  truthy value among the keys \<^verbatim>\<open>string\<close>, \<^verbatim>\<open>datetime\<close>, \<^verbatim>\<open>date\<close> of a dict, and the
  empty string when there is none. In particular, when no read raises anything but
  \<^verbatim>\<open>AttributeError\<close>, the result is the string of the first truthy candidate, attributes
  before keys.
\<close>

theorem format_due_preference:
  "format_due rt due_obj =
     (if \<not> py_truthy due_obj then Inr ''''
      else
        (case first_truthy (map (py_getattr rt due_obj) due_fields) of
           Inl e \<Rightarrow> Inl e
         | Inr (Some v) \<Rightarrow> Inr (py_str rt v)
         | Inr None \<Rightarrow>
             Inr (case find py_truthy (key_candidates due_obj) of
                    Some v \<Rightarrow> py_str rt v
                  | None \<Rightarrow> '''')))
   \<and> ((\<forall>a\<in>set due_fields. \<forall>e. py_getattr rt due_obj a = Inl e \<longrightarrow> e = AttributeError) \<longrightarrow>
        format_due rt due_obj =
          Inr (if py_truthy due_obj
               then (case find py_truthy (attr_candidates rt due_obj @ key_candidates due_obj) of
                       Some v \<Rightarrow> py_str rt v
                     | None \<Rightarrow> '''')
               else ''''))"
  using format_due_total[of rt due_obj] format_due_readable[of rt due_obj] by blast

text \<open>The example of the specification, for an SDK object and for a dict: with
  \<^verbatim>\<open>string\<close> = "Mon" and \<^verbatim>\<open>datetime\<close> = "2024-01-01T00:00" the result is "Mon"; an empty
  \<^verbatim>\<open>string\<close> is passed over; \<^verbatim>\<open>None\<close> gives the empty string; a \<^verbatim>\<open>datetime\<close> that raises
  is not read after a truthy \<^verbatim>\<open>string\<close>, and is raised after a falsy one.\<close>

theorem format_due_preference_witness:
  "format_due plain_runtime
     (PObj [(''string'', Inr (PStr ''Mon'')), (''datetime'', Inr (PStr ''2024-01-01T00:00''))])
     = Inr ''Mon''
   \<and> format_due plain_runtime
     (PDict [(''string'', PStr ''Mon''), (''datetime'', PStr ''2024-01-01T00:00'')])
     = Inr ''Mon''
   \<and> format_due plain_runtime
     (PObj [(''string'', Inr (PStr '''')), (''date'', Inr (PStr ''2024-01-01''))])
     = Inr ''2024-01-01''
   \<and> format_due plain_runtime PNone = Inr ''''
   \<and> format_due plain_runtime
     (PObj [(''string'', Inr (PStr ''Mon'')), (''datetime'', Inl ValueError)])
     = Inr ''Mon''
   \<and> format_due plain_runtime
     (PObj [(''string'', Inr PNone), (''datetime'', Inl KeyError)])
     = Inl KeyError"
proof -
  let ?o = "PObj [(''string'', Inr (PStr ''Mon'')), (''datetime'', Inr (PStr ''2024-01-01T00:00''))]"
  let ?d = "PDict [(''string'', PStr ''Mon''), (''datetime'', PStr ''2024-01-01T00:00'')]"
  let ?p = "PObj [(''string'', Inr (PStr '''')), (''date'', Inr (PStr ''2024-01-01''))]"
  let ?q = "PObj [(''string'', Inr (PStr ''Mon'')), (''datetime'', Inl ValueError)]"
  let ?r = "PObj [(''string'', Inr PNone), (''datetime'', Inl KeyError)]"
  have ho: "\<forall>a\<in>set due_fields. \<forall>e. py_getattr plain_runtime ?o a = Inl e \<longrightarrow> e = AttributeError"
    by (simp add: due_fields_def py_getattr_def)
  have hd: "\<forall>a\<in>set due_fields. \<forall>e. py_getattr plain_runtime ?d a = Inl e \<longrightarrow> e = AttributeError"
    by (simp add: due_fields_def py_getattr_def plain_runtime_def)
  have hp: "\<forall>a\<in>set due_fields. \<forall>e. py_getattr plain_runtime ?p a = Inl e \<longrightarrow> e = AttributeError"
    by (simp add: due_fields_def py_getattr_def)
  have hn: "\<forall>a\<in>set due_fields. \<forall>e. py_getattr plain_runtime PNone a = Inl e \<longrightarrow> e = AttributeError"
    by (simp add: due_fields_def py_getattr_def plain_runtime_def)
  have a: "format_due plain_runtime ?o = Inr ''Mon''"
    using format_due_preference[of plain_runtime ?o, THEN conjunct2, THEN mp, OF ho]
    by (simp add: attr_candidates_def key_candidates_def due_fields_def py_getattr_def
        py_truthy_def py_str_def)
  have b: "format_due plain_runtime ?d = Inr ''Mon''"
    using format_due_preference[of plain_runtime ?d, THEN conjunct2, THEN mp, OF hd]
    by (simp add: attr_candidates_def key_candidates_def due_fields_def py_getattr_def
        plain_runtime_def py_truthy_def py_str_def)
  have c: "format_due plain_runtime ?p = Inr ''2024-01-01''"
    using format_due_preference[of plain_runtime ?p, THEN conjunct2, THEN mp, OF hp]
    by (simp add: attr_candidates_def key_candidates_def due_fields_def py_getattr_def
        py_truthy_def py_str_def)
  have d: "format_due plain_runtime PNone = Inr ''''"
    using format_due_preference[of plain_runtime PNone, THEN conjunct2, THEN mp, OF hn]
    by simp
  have e: "format_due plain_runtime ?q = Inr ''Mon''"
    using format_due_preference[of plain_runtime ?q, THEN conjunct1]
    by (simp add: due_fields_def py_getattr_def py_truthy_def py_str_def)
  have f: "format_due plain_runtime ?r = Inl KeyError"
    using format_due_preference[of plain_runtime ?r, THEN conjunct1]
    by (simp add: due_fields_def py_getattr_def py_truthy_def py_str_def)
  from a b c d e f show ?thesis by blast
qed

text \<open>C7, as the specification states it, does not hold for every due date: here
  \<^verbatim>\<open>datetime\<close> is present and truthy, but the read of \<^verbatim>\<open>string\<close> raises \<^verbatim>\<open>ValueError\<close>,
  and the formatter raises it instead of returning "2024-01-01T00:00".\<close>

theorem format_due_raises:
  "format_due plain_runtime
     (PObj [(''string'', Inl ValueError), (''datetime'', Inr (PStr ''2024-01-01T00:00''))])
     = Inl ValueError"
  by code_simp

subsection \<open>The columns\<close>

lemma show_int_Suc: "show_int (int n + 1) = show_nat (Suc n)"
  by (simp add: show_int_def nat_add_distrib)

lemma column_padding_step:
  "n < 5 \<Longrightarrow> column_padding n = (''Column '' @ show_nat (Suc n)) # column_padding (Suc n)"
  by (simp add: column_padding_def upt_conv_Cons)

lemma column_padding_done: "5 \<le> n \<Longrightarrow> column_padding n = []"
  by (simp add: column_padding_def)

lemma pad_columns_eq: "pad_columns xs = xs @ column_padding (length xs)"
proof (induction xs rule: pad_columns.induct)
  case (1 col_titles)
  show ?case
  proof (cases "length col_titles < 5")
    case True
    with 1 show ?thesis
      by (subst pad_columns.simps) (simp add: show_int_Suc column_padding_step)
  next
    case False
    then show ?thesis
      by (subst pad_columns.simps) (simp add: column_padding_done)
  qed
qed

lemma length_column_padding: "length (column_padding n) = 5 - n"
  by (simp add: column_padding_def)

lemma first_seen_snoc:
  "first_seen (xs @ [x]) = (if x \<in> set xs then first_seen xs else first_seen xs @ [x])"
  by (simp add: first_seen_def)

lemma set_first_seen [simp]: "set (first_seen xs) = set xs"
  by (simp add: first_seen_def)

lemma distinct_first_seen [simp]: "distinct (first_seen xs)"
  by (simp add: first_seen_def)

lemma discover_eq:
  "discover vms = first_seen (filter (\<lambda>s. s \<noteq> []) (map vm_section vms))"
proof (induction vms rule: rev_induct)
  case Nil
  show ?case by (simp add: discover_def first_seen_def)
next
  case (snoc v vms)
  have "discover (vms @ [v]) = discover_step (discover vms) v"
    by (simp add: discover_def)
  with snoc show ?case
    by (auto simp: discover_step_def first_seen_snoc)
qed

lemma configured_titles_eq:
  "map strip (filter (\<lambda>s. strip s \<noteq> []) xs) = filter (\<lambda>s. s \<noteq> []) (map strip xs)"
  by (induction xs) simp_all

lemma nth_column_padding:
  "i < 5 - n \<Longrightarrow> column_padding n ! i = ''Column '' @ show_nat (Suc (n + i))"
  by (simp add: column_padding_def)

text \<open>
  C2. The resolved columns are the base titles followed by the synthetic titles
  "Column N" for the positions N up to 5 that the base titles leave free. The base titles
  are the trimmed, non-empty pieces of the configured string when that string is not
  blank, and otherwise the first five section names in the order in which the view models
  first show them. So there are always at least five columns, exactly five when nothing
  is configured, and the title at a padded position \<open>j\<close> (counted from 0) is
  "Column \<open>j + 1\<close>".
\<close>

theorem resolve_columns_at_least_five:
  "(let configured = strip (case env of Some s \<Rightarrow> s | None \<Rightarrow> '''');
        titles = (if configured \<noteq> [] then configured_titles configured
                  else take 5 (first_seen (filter (\<lambda>s. s \<noteq> []) (map vm_section vms))));
        cols = resolve_columns env vms
    in cols = titles @ column_padding (length titles)
       \<and> 5 \<le> length cols
       \<and> length cols = max 5 (length titles)
       \<and> (configured = [] \<longrightarrow> length cols = 5)
       \<and> (\<forall>j. length titles \<le> j \<and> j < 5 \<longrightarrow> cols ! j = ''Column '' @ show_nat (Suc j)))"
proof -
  define configured where "configured = strip (case env of Some s \<Rightarrow> s | None \<Rightarrow> '''')"
  define titles where "titles = (if configured \<noteq> [] then configured_titles configured
                  else take 5 (first_seen (filter (\<lambda>s. s \<noteq> []) (map vm_section vms))))"
  define cols where "cols = resolve_columns env vms"
  have eq: "cols = titles @ column_padding (length titles)"
    by (simp add: cols_def titles_def configured_def resolve_columns_def Let_def pad_columns_eq
        discover_eq configured_titles_def configured_titles_eq)
  have len: "length cols = max 5 (length titles)"
    unfolding eq by (simp add: length_column_padding)
  have five: "configured = [] \<longrightarrow> length cols = 5"
    unfolding len by (simp add: titles_def)
  have nth: "\<forall>j. length titles \<le> j \<and> j < 5 \<longrightarrow> cols ! j = ''Column '' @ show_nat (Suc j)"
    unfolding eq by (auto simp: nth_append nth_column_padding)
  from eq len five nth show ?thesis
    unfolding Let_def configured_def[symmetric] titles_def[symmetric] cols_def[symmetric]
    by simp
qed

text \<open>A configured string with blank pieces, thirteen view models over twelve sections,
  and no view model at all.\<close>

theorem resolve_columns_at_least_five_witness:
  "resolve_columns (Some '' To Do | Done || '') []
     = [''To Do'', ''Done'', ''Column 3'', ''Column 4'', ''Column 5'']
   \<and> resolve_columns None
       (map (\<lambda>s. \<lparr>vm_content = '''', vm_due = '''', vm_labels = [], vm_priority_class = ''p3'',
                   vm_url = PStr '''', vm_section = s\<rparr>)
          [''a'', ''b'', ''a'', ''c'', ''d'', ''e'', ''f'', ''g'', ''h'', ''i'', ''j'', ''k'', ''l''])
     = [''a'', ''b'', ''c'', ''d'', ''e'']
   \<and> resolve_columns None [] = [''Column 1'', ''Column 2'', ''Column 3'', ''Column 4'', ''Column 5'']"
proof -
  have s: "show_nat 1 = ''1''" "show_nat 2 = ''2''" "show_nat 3 = ''3''" "show_nat 4 = ''4''"
    "show_nat 5 = ''5''"
    by code_simp+
  have pad: "column_padding 0 = [''Column 1'', ''Column 2'', ''Column 3'', ''Column 4'', ''Column 5'']"
    "column_padding (Suc (Suc 0)) = [''Column 3'', ''Column 4'', ''Column 5'']"
    "column_padding (Suc (Suc (Suc (Suc (Suc 0))))) = []"
    by code_simp+
  have c: "configured_titles (strip '' To Do | Done || '') = [''To Do'', ''Done'']"
    by (simp add: configured_titles_def strip_def strip_with_def py_isspace_def)
  have n: "strip '' To Do | Done || '' \<noteq> []" "strip '''' = []"
    by (simp_all add: strip_def strip_with_def py_isspace_def)
  show ?thesis
    using resolve_columns_at_least_five[of "Some '' To Do | Done || ''" "[]"]
      resolve_columns_at_least_five[of None
        "map (\<lambda>s. \<lparr>vm_content = '''', vm_due = '''', vm_labels = [], vm_priority_class = ''p3'',
                   vm_url = PStr '''', vm_section = s\<rparr>)
          [''a'', ''b'', ''a'', ''c'', ''d'', ''e'', ''f'', ''g'', ''h'', ''i'', ''j'', ''k'', ''l'']"]
      resolve_columns_at_least_five[of None "[]"]
    by (simp add: Let_def c n pad first_seen_def)
qed

subsection \<open>Sorting inside a bucket\<close>

lemma sort_buckets_lookup:
  "map_of (sort_buckets b) k = map_option sort_bucket (map_of b k)"
  by (induction b) (auto simp: sort_buckets_def)

lemma vm_sort_key_le:
  "vm_sort_key a \<le> vm_sort_key b \<longleftrightarrow>
     fst (vm_sort_key a) < fst (vm_sort_key b)
     \<or> fst (vm_sort_key a) = fst (vm_sort_key b)
       \<and> (vm_due a < vm_due b \<or> vm_due a = vm_due b \<and> vm_content a \<le> vm_content b)"
  by (auto simp: vm_sort_key_def less_eq_prod_def less_prod_def)

subsection \<open>Sorting the tasks\<close>

lemma sort_keys_Inr:
  "sort_keys rt ts = Inr ks \<Longrightarrow>
     ks = map (key_or_default rt) ts \<and> (\<forall>t\<in>set ts. sort_key_task rt t = Inr (key_or_default rt t))"
  by (induction ts arbitrary: ks) (auto simp: key_or_default_def split: sum.splits)

lemma sort_keys_total:
  "\<forall>t\<in>set ts. sort_key_task rt t = Inr (key_or_default rt t) \<Longrightarrow>
     sort_keys rt ts = Inr (map (key_or_default rt) ts)"
  by (induction ts) auto

lemma insort_key_paired:
  "insort_key fst (f x, x) (map (\<lambda>y. (f y, y)) zs) = map (\<lambda>y. (f y, y)) (insort_key f x zs)"
  by (induction zs) auto

lemma sort_key_paired:
  "sort_key fst (map (\<lambda>y. (f y, y)) xs) = map (\<lambda>y. (f y, y)) (sort_key f xs)"
  by (induction xs) (auto simp: insort_key_paired)

lemma zip_keys: "zip (map f xs) xs = map (\<lambda>y. (f y, y)) xs"
  by (induction xs) auto

lemma sort_tasks_Inr:
  assumes "sort_tasks rt tasks = Inr ts"
  shows "ts = sort_key (key_or_default rt) tasks"
    and "\<forall>t\<in>set tasks. sort_key_task rt t = Inr (key_or_default rt t)"
proof -
  from assms obtain ks where ks: "sort_keys rt tasks = Inr ks"
    and ts: "ts = map snd (sort_key fst (zip ks tasks))"
    by (auto simp: sort_tasks_def split: sum.splits)
  from sort_keys_Inr[OF ks] have k: "ks = map (key_or_default rt) tasks"
    and ok: "\<forall>t\<in>set tasks. sort_key_task rt t = Inr (key_or_default rt t)" by auto
  show "ts = sort_key (key_or_default rt) tasks"
    by (simp add: ts k zip_keys sort_key_paired comp_def)
  show "\<forall>t\<in>set tasks. sort_key_task rt t = Inr (key_or_default rt t)" by (rule ok)
qed

lemma sort_tasks_total:
  assumes "\<forall>t\<in>set tasks. sort_key_task rt t = Inr (key_or_default rt t)"
  shows "sort_tasks rt tasks = Inr (sort_key (key_or_default rt) tasks)"
  by (simp add: sort_tasks_def sort_keys_total[OF assms] zip_keys sort_key_paired comp_def)

lemma int_or_py_or:
  "int_or 0 (py_or ord (PInt 0))
     = (if py_truthy ord then (case py_int ord of Inr n \<Rightarrow> n | Inl _ \<Rightarrow> 0) else 0)"
  by (simp add: py_or_def int_or_def py_int_def)

lemma sort_key_task_Inr:
  assumes "sort_key_task rt t = Inr k"
  shows "\<exists>ord i. get rt t ''order'' (PInt 0) = Inr ord \<and> get rt t ''id'' (PStr '''') = Inr i
           \<and> k = ((if py_truthy ord then (case py_int ord of Inr n \<Rightarrow> n | Inl _ \<Rightarrow> 0) else 0),
                  py_str rt i)"
proof -
  from assms obtain ord where o: "get rt t ''order'' (PInt 0) = Inr ord"
    by (auto simp: sort_key_task_def split: sum.splits)
  from assms o obtain i where i: "get rt t ''id'' (PStr '''') = Inr i"
    by (auto simp: sort_key_task_def Let_def split: sum.splits)
  from assms o i have "k = (int_or 0 (py_or ord (PInt 0)), py_str rt i)"
    by (auto simp: sort_key_task_def Let_def)
  with o i show ?thesis by (simp add: int_or_py_or)
qed

lemma build_stages:
  "build rt exclude_set sections_env tasks_iter sections_iter =
     (case section_name_by_id rt sections_iter of
        Inl e \<Rightarrow> Inl e
      | Inr names \<Rightarrow>
          (case sort_tasks rt (as_list tasks_iter) of
             Inl e \<Rightarrow> Inl e
           | Inr ts \<Rightarrow>
               (case build_view_models rt names exclude_set ts of
                  Inl e \<Rightarrow> Inl e
                | Inr vms \<Rightarrow> layout sections_env vms)))"
  by (simp add: build_def)

text \<open>
  C10. When the sort of the flattened task list returns, its result is a permutation of
  that list, ascending in the pair (order, id): the order is the \<^verbatim>\<open>order\<close> field as an
  integer, 0 when the field is missing, falsy or no integer, and the id is \<^verbatim>\<open>str()\<close> of
  the \<^verbatim>\<open>id\<close> field. Tasks with the same pair keep their arrival order; with pairwise
  different pairs every arrival order of the same tasks gives the same sorted list and
  the same board. The view models, and with them the discovered columns and the buckets,
  are built from the sorted list.
\<close>

theorem tasks_sorted_by_order_then_id:
  assumes "sort_tasks rt (as_list tasks_iter) = Inr ts"
  shows "sort_keys rt ts = Inr (map (key_or_default rt) ts)
       \<and> sorted (map (key_or_default rt) ts)
       \<and> mset ts = mset (as_list tasks_iter)
       \<and> (\<forall>k. filter (\<lambda>t. key_or_default rt t = k) ts
               = filter (\<lambda>t. key_or_default rt t = k) (as_list tasks_iter))
       \<and> (\<forall>t\<in>set ts. \<exists>ord i.
              get rt t ''order'' (PInt 0) = Inr ord \<and> get rt t ''id'' (PStr '''') = Inr i
              \<and> key_or_default rt t
                  = ((if py_truthy ord then (case py_int ord of Inr n \<Rightarrow> n | Inl _ \<Rightarrow> 0) else 0),
                     py_str rt i))
       \<and> (\<forall>arrival. mset arrival = mset (as_list tasks_iter)
              \<and> inj_on (key_or_default rt) (set arrival)
              \<longrightarrow> sort_tasks rt arrival = Inr ts)
       \<and> build rt exclude_set sections_env tasks_iter sections_iter =
           (case section_name_by_id rt sections_iter of
              Inl e \<Rightarrow> Inl e
            | Inr names \<Rightarrow>
                (case build_view_models rt names exclude_set ts of
                   Inl e \<Rightarrow> Inl e
                 | Inr vms \<Rightarrow> layout sections_env vms))
       \<and> (\<forall>arrival_iter. mset (as_list arrival_iter) = mset (as_list tasks_iter)
              \<and> inj_on (key_or_default rt) (set (as_list tasks_iter))
              \<longrightarrow> build rt exclude_set sections_env arrival_iter sections_iter
                    = build rt exclude_set sections_env tasks_iter sections_iter)"
proof -
  let ?f = "key_or_default rt"
  let ?tasks = "as_list tasks_iter"
  note ts = sort_tasks_Inr(1)[OF assms] and ok = sort_tasks_Inr(2)[OF assms]
  have set_ts: "set ts = set ?tasks" by (simp add: ts)
  have keys: "sort_keys rt ts = Inr (map ?f ts)"
    by (rule sort_keys_total) (use ok set_ts in simp)
  have srt: "sorted (map ?f ts)" by (simp add: ts)
  have perm: "mset ts = mset ?tasks" by (simp add: ts)
  have stable: "\<forall>k. filter (\<lambda>t. ?f t = k) ts = filter (\<lambda>t. ?f t = k) ?tasks"
    by (simp add: ts sort_key_stable)
  have key: "\<forall>t\<in>set ts. \<exists>ord i.
              get rt t ''order'' (PInt 0) = Inr ord \<and> get rt t ''id'' (PStr '''') = Inr i
              \<and> ?f t = ((if py_truthy ord then (case py_int ord of Inr n \<Rightarrow> n | Inl _ \<Rightarrow> 0) else 0),
                     py_str rt i)"
    using ok set_ts sort_key_task_Inr by blast
  have arr1: "sort_tasks rt arrival = Inr ts"
    if m: "mset arrival = mset ?tasks" and inj: "inj_on ?f (set arrival)" for arrival
  proof -
    from m have s: "set arrival = set ?tasks" by (rule mset_eq_setD)
    have "sort_tasks rt arrival = Inr (sort_key ?f arrival)"
      by (rule sort_tasks_total) (use ok s in simp)
    moreover have "sort_key ?f arrival = ts"
      by (rule sort_key_inj_key_eq) (use m perm inj srt in simp_all)
    ultimately show "sort_tasks rt arrival = Inr ts" by simp
  qed
  then have arr: "\<forall>arrival. mset arrival = mset ?tasks \<and> inj_on ?f (set arrival)
              \<longrightarrow> sort_tasks rt arrival = Inr ts"
    by blast
  have b: "build rt exclude_set sections_env tasks_iter sections_iter =
           (case section_name_by_id rt sections_iter of
              Inl e \<Rightarrow> Inl e
            | Inr names \<Rightarrow>
                (case build_view_models rt names exclude_set ts of
                   Inl e \<Rightarrow> Inl e
                 | Inr vms \<Rightarrow> layout sections_env vms))"
    by (simp add: build_stages assms split: sum.splits)
  have bb: "\<forall>arrival_iter. mset (as_list arrival_iter) = mset ?tasks \<and> inj_on ?f (set ?tasks)
              \<longrightarrow> build rt exclude_set sections_env arrival_iter sections_iter
                    = build rt exclude_set sections_env tasks_iter sections_iter"
  proof (intro allI impI, elim conjE)
    fix arrival_iter
    assume m: "mset (as_list arrival_iter) = mset ?tasks" and inj: "inj_on ?f (set ?tasks)"
    from m have "set (as_list arrival_iter) = set ?tasks" by (rule mset_eq_setD)
    with inj have "inj_on ?f (set (as_list arrival_iter))" by simp
    from arr1[OF m this] have a: "sort_tasks rt (as_list arrival_iter) = Inr ts" .
    show "build rt exclude_set sections_env arrival_iter sections_iter
                    = build rt exclude_set sections_env tasks_iter sections_iter"
      by (simp add: build_stages assms a split: sum.splits)
  qed
  from keys srt perm stable key arr b bb show ?thesis by blast
qed

text \<open>Three dict tasks on two pages, with an integer order, a string order and no order:
  the sorted list and its keys, and the same result and the same board for another
  arrival order.\<close>

theorem tasks_sorted_by_order_then_id_witness:
  "sort_tasks plain_runtime
     (as_list [PDict [(''order'', PInt 2), (''id'', PStr ''a'')],
               PList [PDict [(''order'', PStr ''1''), (''id'', PInt 7)],
                      PDict [(''id'', PStr ''z'')]]])
     = Inr [PDict [(''id'', PStr ''z'')],
            PDict [(''order'', PStr ''1''), (''id'', PInt 7)],
            PDict [(''order'', PInt 2), (''id'', PStr ''a'')]]
   \<and> sort_keys plain_runtime
       [PDict [(''id'', PStr ''z'')],
        PDict [(''order'', PStr ''1''), (''id'', PInt 7)],
        PDict [(''order'', PInt 2), (''id'', PStr ''a'')]]
     = Inr [(0, ''z''), (1, ''7''), (2, ''a'')]
   \<and> sort_tasks plain_runtime
       [PDict [(''order'', PStr ''1''), (''id'', PInt 7)],
        PDict [(''id'', PStr ''z'')],
        PDict [(''order'', PInt 2), (''id'', PStr ''a'')]]
     = Inr [PDict [(''id'', PStr ''z'')],
            PDict [(''order'', PStr ''1''), (''id'', PInt 7)],
            PDict [(''order'', PInt 2), (''id'', PStr ''a'')]]
   \<and> build plain_runtime {} None
       [PDict [(''order'', PStr ''1''), (''id'', PInt 7)],
        PDict [(''id'', PStr ''z'')],
        PDict [(''order'', PInt 2), (''id'', PStr ''a'')]] []
     = build plain_runtime {} None
       [PDict [(''order'', PInt 2), (''id'', PStr ''a'')],
        PList [PDict [(''order'', PStr ''1''), (''id'', PInt 7)],
               PDict [(''id'', PStr ''z'')]]] []"
proof -
  let ?a = "PDict [(''order'', PInt 2), (''id'', PStr ''a'')]"
  let ?b = "PDict [(''order'', PStr ''1''), (''id'', PInt 7)]"
  let ?c = "PDict [(''id'', PStr ''z'')]"
  have h: "sort_tasks plain_runtime (as_list [?a, PList [?b, ?c]]) = Inr [?c, ?b, ?a]"
    by code_simp
  have k: "key_or_default plain_runtime ?a = (2, ''a'')"
    "key_or_default plain_runtime ?b = (1, ''7'')"
    "key_or_default plain_runtime ?c = (0, ''z'')"
    by code_simp+
  have fl: "as_list [?a, PList [?b, ?c]] = [?a, ?b, ?c]"
    by code_simp
  have fl2: "as_list [?b, ?c, ?a] = [?b, ?c, ?a]"
    by code_simp
  have m: "mset [?b, ?c, ?a] = mset (as_list [?a, PList [?b, ?c]])"
    unfolding fl by simp
  have m2: "mset (as_list [?b, ?c, ?a]) = mset (as_list [?a, PList [?b, ?c]])"
    unfolding fl fl2 by simp
  have inj: "inj_on (key_or_default plain_runtime) (set [?b, ?c, ?a])"
    by (simp add: k)
  have inj2: "inj_on (key_or_default plain_runtime) (set (as_list [?a, PList [?b, ?c]]))"
    unfolding fl by (simp add: k)
  note t = tasks_sorted_by_order_then_id[OF h, of "{}" None "[]"]
  from t have keys: "sort_keys plain_runtime [?c, ?b, ?a] = Inr (map (key_or_default plain_runtime) [?c, ?b, ?a])"
    by blast
  from t have arr: "\<forall>arrival. mset arrival = mset (as_list [?a, PList [?b, ?c]])
              \<and> inj_on (key_or_default plain_runtime) (set arrival)
              \<longrightarrow> sort_tasks plain_runtime arrival = Inr [?c, ?b, ?a]"
    by blast
  from t have bb: "\<forall>arrival_iter. mset (as_list arrival_iter) = mset (as_list [?a, PList [?b, ?c]])
              \<and> inj_on (key_or_default plain_runtime) (set (as_list [?a, PList [?b, ?c]]))
              \<longrightarrow> build plain_runtime {} None arrival_iter []
                    = build plain_runtime {} None [?a, PList [?b, ?c]] []"
    by blast
  from arr m inj have s: "sort_tasks plain_runtime [?b, ?c, ?a] = Inr [?c, ?b, ?a]" by blast
  from bb m2 inj2 have e: "build plain_runtime {} None [?b, ?c, ?a] []
                    = build plain_runtime {} None [?a, PList [?b, ?c]] []" by blast
  from h keys s e show ?thesis by (simp add: k)
qed

text \<open>C10, as the specification states it, does not hold for every task list: two tasks
  without \<^verbatim>\<open>order\<close> and \<^verbatim>\<open>id\<close> have the same pair (0, ""), the stable sort keeps them in
  their arrival order, and the order of the discovered columns follows the arrival
  order.\<close>

theorem arrival_order_decides_ties:
  "sort_key_task plain_runtime (PDict [(''content'', PStr ''a''), (''section_id'', PInt 1)])
     = Inr (0, '''')
   \<and> sort_key_task plain_runtime (PDict [(''content'', PStr ''b''), (''section_id'', PInt 2)])
     = Inr (0, '''')
   \<and> map_sum id columns
     (build plain_runtime {} None
        [PDict [(''content'', PStr ''a''), (''section_id'', PInt 1)],
         PDict [(''content'', PStr ''b''), (''section_id'', PInt 2)]]
        [PDict [(''id'', PInt 1), (''name'', PStr ''One'')],
         PDict [(''id'', PInt 2), (''name'', PStr ''Two'')]])
     = Inr [''One'', ''Two'', ''Column 3'', ''Column 4'', ''Column 5'']
   \<and> map_sum id columns
     (build plain_runtime {} None
        [PDict [(''content'', PStr ''b''), (''section_id'', PInt 2)],
         PDict [(''content'', PStr ''a''), (''section_id'', PInt 1)]]
        [PDict [(''id'', PInt 1), (''name'', PStr ''One'')],
         PDict [(''id'', PInt 2), (''name'', PStr ''Two'')]])
     = Inr [''Two'', ''One'', ''Column 3'', ''Column 4'', ''Column 5'']"
  by code_simp

subsection \<open>The buckets of the board\<close>

lemma map_of_present:
  "k \<in> fst ` set b \<Longrightarrow> \<exists>l. map_of b k = Some l"
  by (induction b) auto

lemma alist_by_keys:
  "distinct (map fst r) \<Longrightarrow> r = map (\<lambda>k. (k, the (map_of r k))) (map fst r)"
proof (induction r)
  case Nil
  show ?case by simp
next
  case (Cons p r)
  from Cons.prems have d: "distinct (map fst r)" and n: "fst p \<notin> fst ` set r" by simp_all
  have "map (\<lambda>k. (k, the (map_of (p # r) k))) (map fst r)
      = map (\<lambda>k. (k, the (map_of r k))) (map fst r)"
  proof (rule map_cong[OF refl])
    fix k assume "k \<in> set (map fst r)"
    then have "k \<in> fst ` set r" by simp
    with n have "k \<noteq> fst p" by blast
    then show "(k, the (map_of (p # r) k)) = (k, the (map_of r k))" by simp
  qed
  also have "\<dots> = r" using Cons.IH[OF d] by simp
  finally show ?case by simp
qed

lemma fill_buckets_props:
  "\<forall>t\<in>set ts. bucket_key titles t \<in> fst ` set b \<Longrightarrow>
     \<exists>r. fill_buckets titles ts b = Inr r \<and> map fst r = map fst b
       \<and> (\<forall>k. map_of r k = map_option (\<lambda>l. l @ column_tasks titles ts k) (map_of b k))"
proof (induction ts arbitrary: b)
  case Nil
  show ?case by (simp add: column_tasks_def option.map_ident)
next
  case (Cons t ts)
  define k0 where "k0 = bucket_key titles t"
  from Cons.prems have kin: "k0 \<in> fst ` set b" by (simp add: k0_def)
  from map_of_present[OF kin] obtain l where l: "map_of b k0 = Some l" ..
  define b' where "b' = AList.update k0 (l @ [t]) b"
  have keys: "map fst b' = map fst b" using kin by (simp add: b'_def update_keys)
  have k': "\<forall>u\<in>set ts. bucket_key titles u \<in> fst ` set b'"
    using Cons.prems by (simp add: b'_def dom_update)
  from Cons.IH[OF k'] obtain r where r: "fill_buckets titles ts b' = Inr r"
    and rk: "map fst r = map fst b'"
    and rm: "\<And>k. map_of r k = map_option (\<lambda>l. l @ column_tasks titles ts k) (map_of b' k)"
    by blast
  have f: "fill_buckets titles (t # ts) b = Inr r"
    using l r by (simp add: k0_def[symmetric] b'_def[symmetric] Let_def)
  have m: "map_of r k = map_option (\<lambda>l. l @ column_tasks titles (t # ts) k) (map_of b k)" for k
  proof (cases "k = k0")
    case True
    have "map_of b' k0 = Some (l @ [t])" by (simp add: b'_def update_conv')
    then have "map_of r k0 = Some ((l @ [t]) @ column_tasks titles ts k0)" by (simp add: rm)
    moreover have "column_tasks titles (t # ts) k0 = t # column_tasks titles ts k0"
      by (simp add: column_tasks_def k0_def)
    ultimately show ?thesis using True l by simp
  next
    case False
    then have "map_of b' k = map_of b k" by (simp add: b'_def update_conv')
    moreover from False have "column_tasks titles (t # ts) k = column_tasks titles ts k"
      by (simp add: column_tasks_def k0_def)
    ultimately show ?thesis by (simp add: rm)
  qed
  from f rk keys m show ?case by simp
qed

lemma foldl_update_distinct:
  "distinct (map fst b) \<Longrightarrow>
     distinct (map fst (foldl (\<lambda>b title. AList.update title v b) b ts))"
  by (induction ts arbitrary: b) (simp_all add: distinct_update)

lemma foldl_update_dom:
  "fst ` set (foldl (\<lambda>b title. AList.update title v b) b ts) = fst ` set b \<union> set ts"
  by (induction ts arbitrary: b) (simp_all add: dom_update)

lemma foldl_update_map_of:
  "map_of (foldl (\<lambda>b title. AList.update title v b) b ts) k
     = (if k \<in> set ts then Some v else map_of b k)"
  by (induction ts arbitrary: b) (simp_all add: update_conv')

lemma bucket_keys_props:
  "distinct (bucket_keys titles)" "set (bucket_keys titles) = set titles \<union> {other_col}"
proof -
  show "distinct (bucket_keys titles)"
    by (simp add: bucket_keys_def init_buckets_def distinct_update foldl_update_distinct)
  have "fst ` set (init_buckets titles) = set titles \<union> {other_col}"
    by (simp add: init_buckets_def dom_update foldl_update_dom)
  then show "set (bucket_keys titles) = set titles \<union> {other_col}"
    by (simp add: bucket_keys_def)
qed

lemma map_of_init_buckets:
  "map_of (init_buckets titles) k = (if k \<in> set titles \<union> {other_col} then Some [] else None)"
  by (simp add: init_buckets_def update_conv' foldl_update_map_of)

lemma bucket_key_in: "bucket_key titles t \<in> set titles \<union> {other_col}"
  by (simp add: bucket_key_def Let_def)

lemma filled_eq:
  "fill_buckets titles vms (init_buckets titles)
     = Inr (map (\<lambda>k. (k, column_tasks titles vms k)) (bucket_keys titles))"
proof -
  have "\<forall>t\<in>set vms. bucket_key titles t \<in> fst ` set (init_buckets titles)"
    using bucket_keys_props(2)[of titles] bucket_key_in[of titles]
    by (simp add: bucket_keys_def)
  from fill_buckets_props[OF this] obtain r
    where r: "fill_buckets titles vms (init_buckets titles) = Inr r"
    and rk: "map fst r = bucket_keys titles"
    and rm: "\<And>k. map_of r k = map_option (\<lambda>l. l @ column_tasks titles vms k) (map_of (init_buckets titles) k)"
    unfolding bucket_keys_def by blast
  have d: "distinct (map fst r)" by (simp add: rk bucket_keys_props)
  have "r = map (\<lambda>k. (k, the (map_of r k))) (bucket_keys titles)"
    using alist_by_keys[OF d] by (simp add: rk)
  also have "\<dots> = map (\<lambda>k. (k, column_tasks titles vms k)) (bucket_keys titles)"
  proof (rule map_cong[OF refl])
    fix k assume "k \<in> set (bucket_keys titles)"
    then have "k \<in> set titles \<union> {other_col}" by (simp add: bucket_keys_props)
    then have "map_of r k = Some (column_tasks titles vms k)"
      by (simp add: rm map_of_init_buckets)
    then show "(k, the (map_of r k)) = (k, column_tasks titles vms k)" by simp
  qed
  finally show ?thesis using r by simp
qed

lemma map_of_keyed:
  "map_of (map (\<lambda>k. (k, f k)) ks) k = (if k \<in> set ks then Some (f k) else None)"
  by (induction ks) auto

lemma map_of_sorted_buckets:
  "map_of (sorted_buckets titles vms) k =
     (if k \<in> set titles \<union> {other_col}
      then Some (sort_bucket (column_tasks titles vms k)) else None)"
  by (simp add: sorted_buckets_def map_of_keyed bucket_keys_props)

lemma sort_bucket_Nil_iff: "sort_bucket l = [] \<longleftrightarrow> l = []"
  by (metis length_0_conv length_sort sort_bucket_def)

lemma layout_eq:
  "layout env vms =
     (let titles = resolve_columns env vms
      in Inr \<lparr>columns = titles @ (if overflow titles vms = [] then [] else [other_col]),
               tasks_by_section =
                 (if overflow titles vms = [] then AList.delete other_col (sorted_buckets titles vms)
                  else sorted_buckets titles vms),
               open_tasks = length vms\<rparr>)"
proof -
  define titles where "titles = resolve_columns env vms"
  have sb: "sort_buckets (map (\<lambda>k. (k, column_tasks titles vms k)) (bucket_keys titles))
      = sorted_buckets titles vms"
    by (simp add: sort_buckets_def sorted_buckets_def comp_def)
  have other: "map_of (sorted_buckets titles vms) other_col = Some (sort_bucket (overflow titles vms))"
    by (simp add: map_of_sorted_buckets overflow_def column_tasks_def)
  show ?thesis
    unfolding layout_def titles_def[symmetric] Let_def
    by (simp add: filled_eq sb other sort_bucket_Nil_iff)
qed

lemma build_layout:
  "build rt exclude_set sections_env tasks_iter sections_iter = Inr b \<Longrightarrow>
     layout sections_env (built_view_models rt exclude_set tasks_iter sections_iter) = Inr b"
  by (auto simp: build_stages built_view_models_def split: sum.splits)

subsection \<open>The sorted buckets\<close>

lemma sort_bucket_sorted: "sorted (map vm_sort_key (sort_bucket l))"
  by (simp add: sort_bucket_def)

lemma sort_bucket_idem: "sort_bucket (sort_bucket l) = sort_bucket l"
  by (simp add: sort_bucket_def sort_key_id_if_sorted)

lemma sort_bucket_id_if_sorted: "sorted (map vm_sort_key l) \<Longrightarrow> sort_bucket l = l"
  by (simp add: sort_bucket_def sort_key_id_if_sorted)

lemma sort_buckets_keys: "map fst (sort_buckets buckets) = map fst buckets"
  by (simp add: sort_buckets_def comp_def)

lemma sort_buckets_values: "map snd (sort_buckets buckets) = map sort_bucket (map snd buckets)"
  by (simp add: sort_buckets_def comp_def)

lemma sort_buckets_idem: "sort_buckets (sort_buckets buckets) = sort_buckets buckets"
  by (simp add: sort_buckets_def comp_def sort_bucket_idem)

lemma sort_buckets_id_if_sorted:
  "\<forall>kb\<in>set buckets. sorted (map vm_sort_key (snd kb)) \<Longrightarrow> sort_buckets buckets = buckets"
  unfolding sort_buckets_def by (rule map_idI) (simp add: sort_bucket_id_if_sorted)

lemma sorted_buckets_entry:
  "kb \<in> set (sorted_buckets titles vms) \<Longrightarrow>
     snd kb = sort_bucket (column_tasks titles vms (fst kb))"
  by (auto simp: sorted_buckets_def)

lemma tasks_by_section_subset:
  "layout env vms = Inr b \<Longrightarrow>
     set (tasks_by_section b) \<subseteq> set (sorted_buckets (resolve_columns env vms) vms)"
  by (auto simp: layout_eq Let_def AList.delete_eq split: if_splits)

text \<open>
  C4. Every bucket that \<open>build\<close> hands to the template is the sorted list of the view
  models of its column: ascending in the key (priority number, due string, content), with
  3 for a priority class whose tail is no integer literal. The loop over the buckets
  keeps the keys and their order and sorts every bucket; sorting the buckets twice is
  sorting them once, and buckets that are ascending stay as they are. Sorting one bucket
  gives a permutation of it that is ascending in the key; it is stable (the view models
  of any one key keep their order) and idempotent, and it leaves a bucket that is already
  ascending as it is. Keys compare by the priority number first, then by the due string,
  then by the content.
\<close>

theorem sort_bucket_stable_idempotent:
  "(build rt exclude_set sections_env tasks_iter sections_iter = Inr b \<longrightarrow>
      (let vms = built_view_models rt exclude_set tasks_iter sections_iter;
           titles = resolve_columns sections_env vms
       in \<forall>kb\<in>set (tasks_by_section b).
            snd kb = sort_bucket (column_tasks titles vms (fst kb))
            \<and> sorted (map vm_sort_key (snd kb))
            \<and> sort_bucket (snd kb) = snd kb))
   \<and> map fst (sort_buckets buckets) = map fst buckets
   \<and> map snd (sort_buckets buckets) = map sort_bucket (map snd buckets)
   \<and> sort_buckets (sort_buckets buckets) = sort_buckets buckets
   \<and> ((\<forall>kb\<in>set buckets. sorted (map vm_sort_key (snd kb))) \<longrightarrow> sort_buckets buckets = buckets)
   \<and> sorted (map vm_sort_key (sort_bucket l))
   \<and> mset (sort_bucket l) = mset l
   \<and> (\<forall>k. filter (\<lambda>t. vm_sort_key t = k) (sort_bucket l) = filter (\<lambda>t. vm_sort_key t = k) l)
   \<and> sort_bucket (sort_bucket l) = sort_bucket l
   \<and> (sorted (map vm_sort_key l) \<longrightarrow> sort_bucket l = l)
   \<and> vm_sort_key t =
       ((case int_of_string (drop 1 (vm_priority_class t)) of Some n \<Rightarrow> n | None \<Rightarrow> 3),
        vm_due t, vm_content t)
   \<and> (vm_sort_key x \<le> vm_sort_key y \<longleftrightarrow>
        fst (vm_sort_key x) < fst (vm_sort_key y)
        \<or> fst (vm_sort_key x) = fst (vm_sort_key y)
          \<and> (vm_due x < vm_due y \<or> vm_due x = vm_due y \<and> vm_content x \<le> vm_content y))"
proof -
  have bld: "build rt exclude_set sections_env tasks_iter sections_iter = Inr b \<longrightarrow>
      (let vms = built_view_models rt exclude_set tasks_iter sections_iter;
           titles = resolve_columns sections_env vms
       in \<forall>kb\<in>set (tasks_by_section b).
            snd kb = sort_bucket (column_tasks titles vms (fst kb))
            \<and> sorted (map vm_sort_key (snd kb))
            \<and> sort_bucket (snd kb) = snd kb)"
  proof
    assume h: "build rt exclude_set sections_env tasks_iter sections_iter = Inr b"
    define vms where "vms = built_view_models rt exclude_set tasks_iter sections_iter"
    define titles where "titles = resolve_columns sections_env vms"
    from build_layout[OF h] have lay: "layout sections_env vms = Inr b" by (simp add: vms_def)
    have "snd kb = sort_bucket (column_tasks titles vms (fst kb))
            \<and> sorted (map vm_sort_key (snd kb)) \<and> sort_bucket (snd kb) = snd kb"
      if "kb \<in> set (tasks_by_section b)" for kb
    proof -
      from that tasks_by_section_subset[OF lay] have "kb \<in> set (sorted_buckets titles vms)"
        unfolding titles_def by blast
      then have e: "snd kb = sort_bucket (column_tasks titles vms (fst kb))"
        by (rule sorted_buckets_entry)
      have "sorted (map vm_sort_key (snd kb))" unfolding e by (rule sort_bucket_sorted)
      moreover have "sort_bucket (snd kb) = snd kb" unfolding e by (rule sort_bucket_idem)
      ultimately show ?thesis using e by simp
    qed
    then show "let vms = built_view_models rt exclude_set tasks_iter sections_iter;
           titles = resolve_columns sections_env vms
       in \<forall>kb\<in>set (tasks_by_section b).
            snd kb = sort_bucket (column_tasks titles vms (fst kb))
            \<and> sorted (map vm_sort_key (snd kb))
            \<and> sort_bucket (snd kb) = snd kb"
      unfolding Let_def vms_def[symmetric] titles_def[symmetric] by blast
  qed
  have bs: "(\<forall>kb\<in>set buckets. sorted (map vm_sort_key (snd kb))) \<longrightarrow> sort_buckets buckets = buckets"
    using sort_buckets_id_if_sorted by blast
  have p: "mset (sort_bucket l) = mset l"
    by (simp add: sort_bucket_def)
  have st: "\<forall>k. filter (\<lambda>t. vm_sort_key t = k) (sort_bucket l) = filter (\<lambda>t. vm_sort_key t = k) l"
    by (simp add: sort_bucket_def sort_key_stable)
  have s: "sorted (map vm_sort_key l) \<longrightarrow> sort_bucket l = l"
    by (simp add: sort_bucket_id_if_sorted)
  have k: "vm_sort_key t =
       ((case int_of_string (drop 1 (vm_priority_class t)) of Some n \<Rightarrow> n | None \<Rightarrow> 3),
        vm_due t, vm_content t)"
    by (simp add: vm_sort_key_def int_or_def py_int_def split: option.splits)
  from bld sort_buckets_keys[of buckets] sort_buckets_values[of buckets] sort_buckets_idem[of buckets]
    bs sort_bucket_sorted[of l] p st sort_bucket_idem[of l] s k vm_sort_key_le[of x y]
  show ?thesis by blast
qed

text \<open>A board with two configured columns: the four tasks of "To Do" arrive as C, B, A, Z
  and are rendered as Z (priority 1, due "Mon"), A, B (priority 1, due "Tue"), C
  (priority 4), and every bucket of the board is ascending. In a single bucket two view
  models with the same key keep their order, an unreadable class "px" sorts as priority
  3, and sorting the result again changes nothing.\<close>

theorem sort_bucket_stable_idempotent_witness:
  "map_sum id (\<lambda>b. map (\<lambda>kb. (fst kb, map vm_content (snd kb))) (tasks_by_section b))
     (build plain_runtime {} (Some ''To Do|Done'')
        [PDict [(''content'', PStr ''C''), (''priority'', PInt 4), (''section_id'', PInt 1)],
         PDict [(''content'', PStr ''B''), (''priority'', PInt 1), (''section_id'', PInt 1),
                (''due'', PDict [(''string'', PStr ''Tue'')])],
         PDict [(''content'', PStr ''A''), (''priority'', PInt 1), (''section_id'', PInt 1),
                (''due'', PDict [(''string'', PStr ''Tue'')])],
         PDict [(''content'', PStr ''Z''), (''priority'', PInt 1), (''section_id'', PInt 1),
                (''due'', PDict [(''string'', PStr ''Mon'')])],
         PDict [(''content'', PStr ''D''), (''priority'', PInt 2), (''section_id'', PInt 2)]]
        [PDict [(''id'', PInt 1), (''name'', PStr ''To Do'')],
         PDict [(''id'', PInt 2), (''name'', PStr ''Done'')]])
     = Inr [(''To Do'', [''Z'', ''A'', ''B'', ''C'']), (''Done'', [''D'']),
            (''Column 3'', []), (''Column 4'', []), (''Column 5'', [])]
   \<and> (case build plain_runtime {} (Some ''To Do|Done'')
        [PDict [(''content'', PStr ''C''), (''priority'', PInt 4), (''section_id'', PInt 1)],
         PDict [(''content'', PStr ''B''), (''priority'', PInt 1), (''section_id'', PInt 1),
                (''due'', PDict [(''string'', PStr ''Tue'')])],
         PDict [(''content'', PStr ''A''), (''priority'', PInt 1), (''section_id'', PInt 1),
                (''due'', PDict [(''string'', PStr ''Tue'')])],
         PDict [(''content'', PStr ''Z''), (''priority'', PInt 1), (''section_id'', PInt 1),
                (''due'', PDict [(''string'', PStr ''Mon'')])],
         PDict [(''content'', PStr ''D''), (''priority'', PInt 2), (''section_id'', PInt 2)]]
        [PDict [(''id'', PInt 1), (''name'', PStr ''To Do'')],
         PDict [(''id'', PInt 2), (''name'', PStr ''Done'')]] of
         Inr b \<Rightarrow> list_all (\<lambda>kb. sorted (map vm_sort_key (snd kb)) \<and> sort_bucket (snd kb) = snd kb)
                    (tasks_by_section b)
       | Inl _ \<Rightarrow> False)
   \<and> sort_bucket
     [\<lparr>vm_content = ''B'', vm_due = ''Mon'', vm_labels = [''first''], vm_priority_class = ''p3'',
       vm_url = PStr '''', vm_section = ''To Do''\<rparr>,
      \<lparr>vm_content = ''B'', vm_due = ''Mon'', vm_labels = [''second''], vm_priority_class = ''p3'',
       vm_url = PStr '''', vm_section = ''To Do''\<rparr>,
      \<lparr>vm_content = ''A'', vm_due = ''Mon'', vm_labels = [], vm_priority_class = ''px'',
       vm_url = PStr '''', vm_section = ''To Do''\<rparr>,
      \<lparr>vm_content = ''Z'', vm_due = ''Tue'', vm_labels = [], vm_priority_class = ''p1'',
       vm_url = PStr '''', vm_section = ''To Do''\<rparr>]
   = [\<lparr>vm_content = ''Z'', vm_due = ''Tue'', vm_labels = [], vm_priority_class = ''p1'',
       vm_url = PStr '''', vm_section = ''To Do''\<rparr>,
      \<lparr>vm_content = ''A'', vm_due = ''Mon'', vm_labels = [], vm_priority_class = ''px'',
       vm_url = PStr '''', vm_section = ''To Do''\<rparr>,
      \<lparr>vm_content = ''B'', vm_due = ''Mon'', vm_labels = [''first''], vm_priority_class = ''p3'',
       vm_url = PStr '''', vm_section = ''To Do''\<rparr>,
      \<lparr>vm_content = ''B'', vm_due = ''Mon'', vm_labels = [''second''], vm_priority_class = ''p3'',
       vm_url = PStr '''', vm_section = ''To Do''\<rparr>]
   \<and> sort_bucket
     [\<lparr>vm_content = ''Z'', vm_due = ''Tue'', vm_labels = [], vm_priority_class = ''p1'',
       vm_url = PStr '''', vm_section = ''To Do''\<rparr>,
      \<lparr>vm_content = ''A'', vm_due = ''Mon'', vm_labels = [], vm_priority_class = ''px'',
       vm_url = PStr '''', vm_section = ''To Do''\<rparr>,
      \<lparr>vm_content = ''B'', vm_due = ''Mon'', vm_labels = [''first''], vm_priority_class = ''p3'',
       vm_url = PStr '''', vm_section = ''To Do''\<rparr>,
      \<lparr>vm_content = ''B'', vm_due = ''Mon'', vm_labels = [''second''], vm_priority_class = ''p3'',
       vm_url = PStr '''', vm_section = ''To Do''\<rparr>]
   = [\<lparr>vm_content = ''Z'', vm_due = ''Tue'', vm_labels = [], vm_priority_class = ''p1'',
       vm_url = PStr '''', vm_section = ''To Do''\<rparr>,
      \<lparr>vm_content = ''A'', vm_due = ''Mon'', vm_labels = [], vm_priority_class = ''px'',
       vm_url = PStr '''', vm_section = ''To Do''\<rparr>,
      \<lparr>vm_content = ''B'', vm_due = ''Mon'', vm_labels = [''first''], vm_priority_class = ''p3'',
       vm_url = PStr '''', vm_section = ''To Do''\<rparr>,
      \<lparr>vm_content = ''B'', vm_due = ''Mon'', vm_labels = [''second''], vm_priority_class = ''p3'',
       vm_url = PStr '''', vm_section = ''To Do''\<rparr>]"
proof -
  let ?tasks = "[PDict [(''content'', PStr ''C''), (''priority'', PInt 4), (''section_id'', PInt 1)],
         PDict [(''content'', PStr ''B''), (''priority'', PInt 1), (''section_id'', PInt 1),
                (''due'', PDict [(''string'', PStr ''Tue'')])],
         PDict [(''content'', PStr ''A''), (''priority'', PInt 1), (''section_id'', PInt 1),
                (''due'', PDict [(''string'', PStr ''Tue'')])],
         PDict [(''content'', PStr ''Z''), (''priority'', PInt 1), (''section_id'', PInt 1),
                (''due'', PDict [(''string'', PStr ''Mon'')])],
         PDict [(''content'', PStr ''D''), (''priority'', PInt 2), (''section_id'', PInt 2)]]"
  let ?secs = "[PDict [(''id'', PInt 1), (''name'', PStr ''To Do'')],
         PDict [(''id'', PInt 2), (''name'', PStr ''Done'')]]"
  let ?b1 = "\<lparr>vm_content = ''B'', vm_due = ''Mon'', vm_labels = [''first''], vm_priority_class = ''p3'',
       vm_url = PStr '''', vm_section = ''To Do''\<rparr>"
  let ?b2 = "\<lparr>vm_content = ''B'', vm_due = ''Mon'', vm_labels = [''second''], vm_priority_class = ''p3'',
       vm_url = PStr '''', vm_section = ''To Do''\<rparr>"
  let ?a = "\<lparr>vm_content = ''A'', vm_due = ''Mon'', vm_labels = [], vm_priority_class = ''px'',
       vm_url = PStr '''', vm_section = ''To Do''\<rparr>"
  let ?z = "\<lparr>vm_content = ''Z'', vm_due = ''Tue'', vm_labels = [], vm_priority_class = ''p1'',
       vm_url = PStr '''', vm_section = ''To Do''\<rparr>"
  have board: "map_sum id (\<lambda>b. map (\<lambda>kb. (fst kb, map vm_content (snd kb))) (tasks_by_section b))
       (build plain_runtime {} (Some ''To Do|Done'') ?tasks ?secs)
     = Inr [(''To Do'', [''Z'', ''A'', ''B'', ''C'']), (''Done'', [''D'']),
            (''Column 3'', []), (''Column 4'', []), (''Column 5'', [])]"
    by code_simp
  then obtain b where h: "build plain_runtime {} (Some ''To Do|Done'') ?tasks ?secs = Inr b"
    by (cases "build plain_runtime {} (Some ''To Do|Done'') ?tasks ?secs") simp_all
  from sort_bucket_stable_idempotent[of plain_runtime "{}" "Some ''To Do|Done''" ?tasks ?secs b] h
  have "\<forall>kb\<in>set (tasks_by_section b).
          sorted (map vm_sort_key (snd kb)) \<and> sort_bucket (snd kb) = snd kb"
    unfolding Let_def by blast
  then have each: "list_all (\<lambda>kb. sorted (map vm_sort_key (snd kb)) \<and> sort_bucket (snd kb) = snd kb)
                    (tasks_by_section b)"
    by (simp add: list_all_iff)
  have first: "sort_bucket [?b1, ?b2, ?a, ?z] = [?z, ?a, ?b1, ?b2]"
    by code_simp
  have srt: "sorted (map vm_sort_key [?z, ?a, ?b1, ?b2])"
    by code_simp
  have "sorted (map vm_sort_key [?z, ?a, ?b1, ?b2]) \<longrightarrow> sort_bucket [?z, ?a, ?b1, ?b2] = [?z, ?a, ?b1, ?b2]"
    using sort_bucket_stable_idempotent[of _ _ _ _ _ _ _ "[?z, ?a, ?b1, ?b2]"] by blast
  with srt have second: "sort_bucket [?z, ?a, ?b1, ?b2] = [?z, ?a, ?b1, ?b2]" by blast
  from board each first second show ?thesis unfolding h by simp
qed

subsection \<open>The view models\<close>

lemma build_view_model_excluded:
  "task_priority rt t = Inr p \<Longrightarrow> p \<in> ex \<Longrightarrow> build_view_model rt names ex t = Inr None"
  by (simp add: build_view_model_def)

lemma build_view_model_None:
  "build_view_model rt names ex t = Inr None \<Longrightarrow> excluded rt ex t"
  by (auto simp: build_view_model_def excluded_def split: sum.splits if_splits)

lemma build_view_model_Some:
  assumes "build_view_model rt names ex t = Inr (Some vm)"
  shows "\<exists>p. task_priority rt t = Inr p \<and> p \<notin> ex \<and> vm_priority_class vm = ''p'' @ show_int p"
    and "vm_section vm \<noteq> []"
    and "\<not> excluded rt ex t"
  using assms
  by (auto simp: build_view_model_def excluded_def split: sum.splits if_splits)

lemma build_view_models_Inr:
  "build_view_models rt names ex ts = Inr vms \<Longrightarrow>
     vms = List.map_filter (view_model_or_none rt names ex) ts
     \<and> (\<forall>t\<in>set ts. \<exists>r. build_view_model rt names ex t = Inr r)"
proof (induction ts arbitrary: vms)
  case Nil
  then show ?case by (simp add: List.map_filter_simps)
next
  case (Cons t ts)
  from Cons.prems obtain r rest where r: "build_view_model rt names ex t = Inr r"
    and rest: "build_view_models rt names ex ts = Inr rest"
    and vms: "vms = (case r of None \<Rightarrow> rest | Some vm \<Rightarrow> vm # rest)"
    by (auto split: sum.splits)
  from Cons.IH[OF rest] r vms show ?case
    by (auto simp: List.map_filter_simps view_model_or_none_def split: option.splits)
qed

lemma build_view_models_total:
  "\<forall>t\<in>set ts. \<exists>r. build_view_model rt names ex t = Inr r \<Longrightarrow>
     build_view_models rt names ex ts = Inr (List.map_filter (view_model_or_none rt names ex) ts)"
proof (induction ts)
  case Nil
  show ?case by (simp add: List.map_filter_simps)
next
  case (Cons t ts)
  then obtain r where r: "build_view_model rt names ex t = Inr r" by auto
  with Cons show ?case
    by (auto simp: List.map_filter_simps view_model_or_none_def split: option.splits)
qed

lemma view_model_or_none_None_iff:
  "build_view_model rt names ex t = Inr r \<Longrightarrow>
     view_model_or_none rt names ex t = None \<longleftrightarrow> excluded rt ex t"
proof
  assume b: "build_view_model rt names ex t = Inr r" and "view_model_or_none rt names ex t = None"
  then show "excluded rt ex t"
    by (auto simp: view_model_or_none_def intro: build_view_model_None)
next
  assume b: "build_view_model rt names ex t = Inr r" and e: "excluded rt ex t"
  from e obtain p where "task_priority rt t = Inr p" "p \<in> ex"
    by (auto simp: excluded_def split: sum.splits)
  then show "view_model_or_none rt names ex t = None"
    by (simp add: view_model_or_none_def build_view_model_excluded)
qed

lemma map_filter_drop_None:
  "\<forall>t\<in>set ts. f t = None \<longleftrightarrow> P t \<Longrightarrow>
     List.map_filter f (filter (\<lambda>t. \<not> P t) ts) = List.map_filter f ts
     \<and> length (List.map_filter f ts) = length (filter (\<lambda>t. \<not> P t) ts)
     \<and> List.map_filter f ts = map (\<lambda>t. the (f t)) (filter (\<lambda>t. \<not> P t) ts)"
  by (induction ts) (auto simp: List.map_filter_simps split: option.splits)

lemma length_filter_not:
  "length (filter (\<lambda>t. \<not> P t) ts) = length ts - length (filter P ts)"
  using sum_length_filter_compl[of P ts] by simp

lemma build_view_models_skip_excluded:
  assumes "build_view_models rt names ex ts = Inr vms"
  shows "build_view_models rt names ex (filter (\<lambda>t. \<not> excluded rt ex t) ts) = Inr vms"
    and "length vms = length ts - length (filter (excluded rt ex) ts)"
    and "vms = map (\<lambda>t. the (view_model_or_none rt names ex t)) (filter (\<lambda>t. \<not> excluded rt ex t) ts)"
proof -
  note v = build_view_models_Inr[OF assms]
  then have iff: "\<forall>t\<in>set ts. view_model_or_none rt names ex t = None \<longleftrightarrow> excluded rt ex t"
    using view_model_or_none_None_iff by blast
  note mf = map_filter_drop_None[OF iff]
  have "build_view_models rt names ex (filter (\<lambda>t. \<not> excluded rt ex t) ts)
          = Inr (List.map_filter (view_model_or_none rt names ex) (filter (\<lambda>t. \<not> excluded rt ex t) ts))"
    by (rule build_view_models_total) (use v in auto)
  with mf v show "build_view_models rt names ex (filter (\<lambda>t. \<not> excluded rt ex t) ts) = Inr vms"
    by simp
  from mf v show "length vms = length ts - length (filter (excluded rt ex) ts)"
    by (simp add: length_filter_not)
  from mf v show "vms = map (\<lambda>t. the (view_model_or_none rt names ex t)) (filter (\<lambda>t. \<not> excluded rt ex t) ts)"
    by simp
qed

lemma as_list_pages: "as_list [PList xs] = xs"
  by (simp add: as_list_def as_list_step_def)

lemma build_Inr_stages:
  assumes "build rt ex env tasks_iter sections_iter = Inr b"
  shows "\<exists>names ts. section_name_by_id rt sections_iter = Inr names
           \<and> sort_tasks rt (as_list tasks_iter) = Inr ts
           \<and> build_view_models rt names ex ts
               = Inr (built_view_models rt ex tasks_iter sections_iter)
           \<and> layout env (built_view_models rt ex tasks_iter sections_iter) = Inr b"
  using assms by (auto simp: build_stages built_view_models_def split: sum.splits)

lemma task_priority_cases:
  "task_priority rt t = Inr p \<longleftrightarrow>
     (\<exists>prio. get rt t ''priority'' (PInt 3) = Inr prio
        \<and> p = (case py_int prio of Inr n \<Rightarrow> n | Inl _ \<Rightarrow> 3))"
  by (auto simp: task_priority_def int_or_def split: sum.splits)

lemma excluded_iff:
  "excluded rt ex t \<longleftrightarrow>
     (\<exists>prio. get rt t ''priority'' (PInt 3) = Inr prio
        \<and> (case py_int prio of Inr n \<Rightarrow> n | Inl _ \<Rightarrow> 3) \<in> ex)"
  by (auto simp: excluded_def task_priority_def int_or_def split: sum.splits)

lemma excluded_gives_None:
  "excluded rt ex t \<Longrightarrow> build_view_model rt names ex t = Inr None"
  by (auto simp: excluded_def build_view_model_excluded split: sum.splits)

lemma priority_classes:
  assumes "build_view_models rt names ex ts = Inr vms"
  shows "map vm_priority_class vms
           = map (\<lambda>t. ''p'' @ show_int (priority_or_default rt t))
               (filter (\<lambda>t. \<not> excluded rt ex t) ts)"
proof -
  note v = build_view_models_Inr[OF assms]
  have vms: "vms = map (\<lambda>t. the (view_model_or_none rt names ex t)) (filter (\<lambda>t. \<not> excluded rt ex t) ts)"
    by (rule build_view_models_skip_excluded(3)[OF assms])
  have "map vm_priority_class vms
      = map (\<lambda>t. vm_priority_class (the (view_model_or_none rt names ex t)))
          (filter (\<lambda>t. \<not> excluded rt ex t) ts)"
    unfolding vms by (simp add: comp_def)
  also have "\<dots> = map (\<lambda>t. ''p'' @ show_int (priority_or_default rt t))
               (filter (\<lambda>t. \<not> excluded rt ex t) ts)"
  proof (rule map_cong[OF refl])
    fix t assume "t \<in> set (filter (\<lambda>t. \<not> excluded rt ex t) ts)"
    then have t: "t \<in> set ts" and ne: "\<not> excluded rt ex t" by simp_all
    from v t obtain r where r: "build_view_model rt names ex t = Inr r" by blast
    with ne have "view_model_or_none rt names ex t \<noteq> None"
      using view_model_or_none_None_iff by blast
    with r obtain vm where vm: "build_view_model rt names ex t = Inr (Some vm)"
      and vo: "view_model_or_none rt names ex t = Some vm"
      by (auto simp: view_model_or_none_def)
    from build_view_model_Some(1)[OF vm] obtain p where "task_priority rt t = Inr p"
      and "vm_priority_class vm = ''p'' @ show_int p" by blast
    then show "vm_priority_class (the (view_model_or_none rt names ex t))
          = ''p'' @ show_int (priority_or_default rt t)"
      by (simp add: vo priority_or_default_def)
  qed
  finally show ?thesis .
qed

lemma priority_read:
  assumes "build_view_models rt names ex ts = Inr vms" and "t \<in> set ts"
  shows "\<exists>prio. get rt t ''priority'' (PInt 3) = Inr prio
           \<and> priority_or_default rt t = (case py_int prio of Inr n \<Rightarrow> n | Inl _ \<Rightarrow> 3)
           \<and> (excluded rt ex t \<longleftrightarrow> priority_or_default rt t \<in> ex)"
proof -
  from build_view_models_Inr[OF assms(1)] assms(2)
  obtain r where r: "build_view_model rt names ex t = Inr r" by blast
  then obtain p where p: "task_priority rt t = Inr p"
    by (auto simp: build_view_model_def split: sum.splits)
  then obtain prio where "get rt t ''priority'' (PInt 3) = Inr prio"
    and "p = (case py_int prio of Inr n \<Rightarrow> n | Inl _ \<Rightarrow> 3)"
    by (auto simp: task_priority_cases)
  with p show ?thesis by (simp add: priority_or_default_def excluded_def)
qed

text \<open>
  C6. When the loop over the tasks returns, the view models are those of the tasks that
  are not excluded, in the order of the tasks, and the priority class of each is "p"
  followed by the decimal of the priority of its task: the \<^verbatim>\<open>priority\<close> field, 3 when it
  is missing, as an integer, 3 when it has no integer value. The number is not clamped
  to 1..4. A task is excluded exactly when this priority is in the set of excluded
  priorities. The same holds for the view models of a build that returns, over the
  sorted tasks.
\<close>

theorem priority_class_is_p_priority:
  assumes "build_view_models rt names exclude_set ts = Inr vms"
  shows "map vm_priority_class vms
           = map (\<lambda>t. ''p'' @ show_int (priority_or_default rt t))
               (filter (\<lambda>t. \<not> excluded rt exclude_set t) ts)
       \<and> (\<forall>t\<in>set ts. \<exists>prio. get rt t ''priority'' (PInt 3) = Inr prio
              \<and> priority_or_default rt t = (case py_int prio of Inr n \<Rightarrow> n | Inl _ \<Rightarrow> 3)
              \<and> (excluded rt exclude_set t \<longleftrightarrow> priority_or_default rt t \<in> exclude_set))
       \<and> (\<forall>b sections_env tasks_iter sections_iter.
             build rt exclude_set sections_env tasks_iter sections_iter = Inr b \<longrightarrow>
             (\<exists>sorted_tasks. sort_tasks rt (as_list tasks_iter) = Inr sorted_tasks
                \<and> map vm_priority_class (built_view_models rt exclude_set tasks_iter sections_iter)
                    = map (\<lambda>t. ''p'' @ show_int (priority_or_default rt t))
                        (filter (\<lambda>t. \<not> excluded rt exclude_set t) sorted_tasks)))"
proof -
  have a: "\<forall>t\<in>set ts. \<exists>prio. get rt t ''priority'' (PInt 3) = Inr prio
              \<and> priority_or_default rt t = (case py_int prio of Inr n \<Rightarrow> n | Inl _ \<Rightarrow> 3)
              \<and> (excluded rt exclude_set t \<longleftrightarrow> priority_or_default rt t \<in> exclude_set)"
    using priority_read[OF assms] by blast
  have b: "\<exists>sorted_tasks. sort_tasks rt (as_list tasks_iter) = Inr sorted_tasks
                \<and> map vm_priority_class (built_view_models rt exclude_set tasks_iter sections_iter)
                    = map (\<lambda>t. ''p'' @ show_int (priority_or_default rt t))
                        (filter (\<lambda>t. \<not> excluded rt exclude_set t) sorted_tasks)"
    if "build rt exclude_set sections_env tasks_iter sections_iter = Inr b"
    for b sections_env tasks_iter sections_iter
  proof -
    from build_Inr_stages[OF that] obtain names0 ts0
      where "sort_tasks rt (as_list tasks_iter) = Inr ts0"
        and "build_view_models rt names0 exclude_set ts0
               = Inr (built_view_models rt exclude_set tasks_iter sections_iter)"
      by blast
    with priority_classes show ?thesis by blast
  qed
  from priority_classes[OF assms] a b show ?thesis by blast
qed

text \<open>The priorities 0, 5 and -1 give the classes "p0", "p5" and "p-1", the string "2"
  gives "p2", a string that is no integer and a missing priority give "p3".\<close>

theorem priority_class_is_p_priority_witness:
  "map_sum id (map vm_priority_class)
     (build_view_models plain_runtime [] {}
        [PDict [(''content'', PStr ''a''), (''priority'', PInt 0)],
         PDict [(''content'', PStr ''b''), (''priority'', PInt 5)],
         PDict [(''content'', PStr ''c''), (''priority'', PInt (- 1))],
         PDict [(''content'', PStr ''d''), (''priority'', PStr ''2'')],
         PDict [(''content'', PStr ''e''), (''priority'', PStr ''high'')],
         PDict [(''content'', PStr ''f'')]])
     = Inr [''p0'', ''p5'', ''p-1'', ''p2'', ''p3'', ''p3'']"
proof -
  let ?ts = "[PDict [(''content'', PStr ''a''), (''priority'', PInt 0)],
         PDict [(''content'', PStr ''b''), (''priority'', PInt 5)],
         PDict [(''content'', PStr ''c''), (''priority'', PInt (- 1))],
         PDict [(''content'', PStr ''d''), (''priority'', PStr ''2'')],
         PDict [(''content'', PStr ''e''), (''priority'', PStr ''high'')],
         PDict [(''content'', PStr ''f'')]]"
  have "map_sum id length (build_view_models plain_runtime [] {} ?ts) = Inr 6"
    by code_simp
  then obtain vms where h: "build_view_models plain_runtime [] {} ?ts = Inr vms"
    by (cases "build_view_models plain_runtime [] {} ?ts") simp_all
  have e: "map (\<lambda>t. ''p'' @ show_int (priority_or_default plain_runtime t))
             (filter (\<lambda>t. \<not> excluded plain_runtime {} t) ?ts)
           = [''p0'', ''p5'', ''p-1'', ''p2'', ''p3'', ''p3'']"
    by code_simp
  from priority_class_is_p_priority[OF h] e
  have "map vm_priority_class vms = [''p0'', ''p5'', ''p-1'', ''p2'', ''p3'', ''p3'']"
    by simp
  then show ?thesis unfolding h by simp
qed

subsection \<open>The excluded tasks\<close>

lemma filter_sorted_length:
  "length (filter P (sort_key f xs)) = length (filter P xs)"
  by (simp add: filter_sort)

lemma open_tasks_layout: "layout env vms = Inr b \<Longrightarrow> open_tasks b = length vms"
  by (auto simp: layout_eq Let_def)

lemma build_without_excluded:
  assumes "build rt ex env tasks_iter sections_iter = Inr b"
  shows "build rt ex env [PList (filter (\<lambda>t. \<not> excluded rt ex t) (as_list tasks_iter))] sections_iter
           = Inr b"
    and "length (built_view_models rt ex tasks_iter sections_iter)
           = length (as_list tasks_iter) - length (filter (excluded rt ex) (as_list tasks_iter))"
proof -
  let ?tasks = "as_list tasks_iter"
  let ?Q = "\<lambda>t. \<not> excluded rt ex t"
  let ?f = "key_or_default rt"
  let ?vms = "built_view_models rt ex tasks_iter sections_iter"
  from build_Inr_stages[OF assms] obtain names ts
    where n: "section_name_by_id rt sections_iter = Inr names"
      and s: "sort_tasks rt ?tasks = Inr ts"
      and v: "build_view_models rt names ex ts = Inr ?vms"
      and l: "layout env ?vms = Inr b"
    by blast
  note ts = sort_tasks_Inr(1)[OF s] and ok = sort_tasks_Inr(2)[OF s]
  have "sort_tasks rt (filter ?Q ?tasks) = Inr (sort_key ?f (filter ?Q ?tasks))"
    by (rule sort_tasks_total) (use ok in simp)
  then have s': "sort_tasks rt (filter ?Q ?tasks) = Inr (filter ?Q ts)"
    by (simp add: ts filter_sort)
  have v': "build_view_models rt names ex (filter ?Q ts) = Inr ?vms"
    by (rule build_view_models_skip_excluded(1)[OF v])
  show "build rt ex env [PList (filter ?Q ?tasks)] sections_iter = Inr b"
    by (simp add: build_stages as_list_pages n s' v' l)
  have "length ?vms = length ts - length (filter (excluded rt ex) ts)"
    by (rule build_view_models_skip_excluded(2)[OF v])
  then show "length ?vms = length ?tasks - length (filter (excluded rt ex) ?tasks)"
    by (simp add: ts filter_sorted_length)
qed

text \<open>
  C5. A task whose priority (the \<^verbatim>\<open>priority\<close> field, 3 when missing, as an integer, 3
  when it has no integer value) is in the set of excluded priorities gives no view
  model. When the build returns, the number of open tasks it reports is the number of
  view models, which is the number of tasks minus the number of excluded tasks, and the
  board is the one that the build gives for the task list without the excluded tasks:
  they leave no trace in the columns, in the buckets or in the count.
\<close>

theorem excluded_tasks_are_omitted:
  assumes "build rt exclude_set sections_env tasks_iter sections_iter = Inr b"
  shows "open_tasks b
           = length (as_list tasks_iter)
               - length (filter (excluded rt exclude_set) (as_list tasks_iter))
       \<and> length (built_view_models rt exclude_set tasks_iter sections_iter) = open_tasks b
       \<and> build rt exclude_set sections_env
           [PList (filter (\<lambda>t. \<not> excluded rt exclude_set t) (as_list tasks_iter))] sections_iter
           = Inr b
       \<and> (\<forall>t. excluded rt exclude_set t \<longleftrightarrow>
              (\<exists>prio. get rt t ''priority'' (PInt 3) = Inr prio
                 \<and> (case py_int prio of Inr n \<Rightarrow> n | Inl _ \<Rightarrow> 3) \<in> exclude_set))
       \<and> (\<forall>t names. excluded rt exclude_set t \<longrightarrow>
              build_view_model rt names exclude_set t = Inr None
              \<and> build_view_models rt names exclude_set [t] = Inr [])"
proof -
  from build_Inr_stages[OF assms]
  have l: "layout sections_env (built_view_models rt exclude_set tasks_iter sections_iter) = Inr b"
    by blast
  note o = open_tasks_layout[OF l]
  have e: "\<forall>t names. excluded rt exclude_set t \<longrightarrow>
              build_view_model rt names exclude_set t = Inr None
              \<and> build_view_models rt names exclude_set [t] = Inr []"
    by (simp add: excluded_gives_None)
  from o build_without_excluded[OF assms] excluded_iff[of rt exclude_set] e
  show ?thesis by simp
qed

text \<open>The example of the specification with the priority 4 excluded: task A is dropped,
  the bucket "To Do" is empty, one open task is reported, and the board is that of task B
  alone.\<close>

theorem excluded_tasks_are_omitted_witness:
  "map_sum id (\<lambda>b. (open_tasks b, map (\<lambda>kb. (fst kb, map vm_content (snd kb))) (tasks_by_section b)))
     (build plain_runtime {4} (Some ''To Do|Done'')
        [PDict [(''content'', PStr ''A''), (''priority'', PInt 4), (''section_id'', PStr ''s1'')],
         PDict [(''content'', PStr ''B''), (''priority'', PInt 1), (''section_id'', PStr ''s2'')]]
        [PDict [(''id'', PStr ''s1''), (''name'', PStr ''To Do'')],
         PDict [(''id'', PStr ''s2''), (''name'', PStr ''Done'')]])
     = Inr (1, [(''To Do'', []), (''Done'', [''B'']),
                (''Column 3'', []), (''Column 4'', []), (''Column 5'', [])])
   \<and> build plain_runtime {4} (Some ''To Do|Done'')
        [PList [PDict [(''content'', PStr ''B''), (''priority'', PInt 1), (''section_id'', PStr ''s2'')]]]
        [PDict [(''id'', PStr ''s1''), (''name'', PStr ''To Do'')],
         PDict [(''id'', PStr ''s2''), (''name'', PStr ''Done'')]]
     = build plain_runtime {4} (Some ''To Do|Done'')
        [PDict [(''content'', PStr ''A''), (''priority'', PInt 4), (''section_id'', PStr ''s1'')],
         PDict [(''content'', PStr ''B''), (''priority'', PInt 1), (''section_id'', PStr ''s2'')]]
        [PDict [(''id'', PStr ''s1''), (''name'', PStr ''To Do'')],
         PDict [(''id'', PStr ''s2''), (''name'', PStr ''Done'')]]"
proof -
  let ?A = "PDict [(''content'', PStr ''A''), (''priority'', PInt 4), (''section_id'', PStr ''s1'')]"
  let ?B = "PDict [(''content'', PStr ''B''), (''priority'', PInt 1), (''section_id'', PStr ''s2'')]"
  let ?secs = "[PDict [(''id'', PStr ''s1''), (''name'', PStr ''To Do'')],
         PDict [(''id'', PStr ''s2''), (''name'', PStr ''Done'')]]"
  let ?build = "build plain_runtime {4} (Some ''To Do|Done'') [?A, ?B] ?secs"
  have buckets: "map_sum id (\<lambda>b. map (\<lambda>kb. (fst kb, map vm_content (snd kb))) (tasks_by_section b)) ?build
     = Inr [(''To Do'', []), (''Done'', [''B'']),
            (''Column 3'', []), (''Column 4'', []), (''Column 5'', [])]"
    by code_simp
  then obtain b where h: "?build = Inr b"
    by (cases ?build) simp_all
  have ex: "filter (excluded plain_runtime {4}) (as_list [?A, ?B]) = [?A]"
    by code_simp
  have nex: "filter (\<lambda>t. \<not> excluded plain_runtime {4} t) (as_list [?A, ?B]) = [?B]"
    by code_simp
  have len: "length (as_list [?A, ?B]) = 2"
    by code_simp
  note t = excluded_tasks_are_omitted[OF h]
  from t have "open_tasks b = 1" unfolding ex len by simp
  moreover from t have "build plain_runtime {4} (Some ''To Do|Done'') [PList [?B]] ?secs = Inr b"
    unfolding nex by blast
  ultimately show ?thesis using buckets unfolding h by simp
qed

subsection \<open>The buckets as a partition\<close>

lemma mset_filter_disj:
  "\<forall>x\<in>set xs. \<not> (P x \<and> Q x) \<Longrightarrow>
     mset (filter P xs) + mset (filter Q xs) = mset (filter (\<lambda>x. P x \<or> Q x) xs)"
  by (induction xs) auto

lemma partition_by_key:
  "distinct ks \<Longrightarrow> (\<And>k. mset (g k) = mset (filter (\<lambda>t. f t = k) xs)) \<Longrightarrow>
     mset (concat (map g ks)) = mset (filter (\<lambda>t. f t \<in> set ks) xs)"
proof (induction ks)
  case Nil
  show ?case by simp
next
  case (Cons k ks)
  have d: "\<forall>x\<in>set xs. \<not> (f x = k \<and> f x \<in> set ks)" using Cons.prems(1) by auto
  have ih: "mset (concat (map g ks)) = mset (filter (\<lambda>t. f t \<in> set ks) xs)"
    using Cons by simp
  have "mset (concat (map g (k # ks)))
      = mset (filter (\<lambda>t. f t = k) xs) + mset (filter (\<lambda>t. f t \<in> set ks) xs)"
    by (simp only: list.map concat.simps mset_append ih Cons.prems(2))
  also have "\<dots> = mset (filter (\<lambda>t. f t = k \<or> f t \<in> set ks) xs)"
    by (rule mset_filter_disj[OF d])
  also have "(\<lambda>t. f t = k \<or> f t \<in> set ks) = (\<lambda>t. f t \<in> set (k # ks))" by auto
  finally show ?case .
qed

lemma set_sort_bucket: "set (sort_bucket l) = set l"
  by (simp add: sort_bucket_def)

lemma mset_sort_bucket: "mset (sort_bucket l) = mset l"
  by (simp add: sort_bucket_def)

lemma sorted_buckets_concat:
  "mset (concat (map snd (sorted_buckets titles vms))) = mset vms"
proof -
  have m: "map snd (sorted_buckets titles vms)
      = map (\<lambda>k. sort_bucket (column_tasks titles vms k)) (bucket_keys titles)"
    by (simp add: sorted_buckets_def comp_def)
  have "mset (concat (map (\<lambda>k. sort_bucket (column_tasks titles vms k)) (bucket_keys titles)))
      = mset (filter (\<lambda>t. bucket_key titles t \<in> set (bucket_keys titles)) vms)"
    by (rule partition_by_key)
      (simp_all only: bucket_keys_props(1) mset_sort_bucket column_tasks_def)
  moreover have "filter (\<lambda>t. bucket_key titles t \<in> set (bucket_keys titles)) vms = vms"
    using bucket_key_in[of titles] by (simp add: bucket_keys_props(2))
  ultimately show ?thesis by (simp only: m)
qed

lemma delete_empty_bucket:
  "\<forall>p\<in>set al. fst p = k \<longrightarrow> snd p = [] \<Longrightarrow>
     concat (map snd (AList.delete k al)) = concat (map snd al)"
  by (induction al) auto

lemma board_buckets:
  assumes "layout env vms = Inr b"
  shows "map_of (tasks_by_section b) k =
           (if k \<in> set (resolve_columns env vms) \<union> {other_col}
               \<and> (k = other_col \<longrightarrow> overflow (resolve_columns env vms) vms \<noteq> [])
            then Some (sort_bucket (column_tasks (resolve_columns env vms) vms k)) else None)"
    and "distinct (map fst (tasks_by_section b))"
    and "mset (concat (map snd (tasks_by_section b))) = mset vms"
    and "columns b = resolve_columns env vms
           @ (if overflow (resolve_columns env vms) vms = [] then [] else [other_col])"
proof -
  define titles where "titles = resolve_columns env vms"
  define sb where "sb = sorted_buckets titles vms"
  have tbs: "tasks_by_section b = (if overflow titles vms = [] then AList.delete other_col sb else sb)"
    and cols: "columns b = titles @ (if overflow titles vms = [] then [] else [other_col])"
    using assms by (auto simp: layout_eq Let_def titles_def sb_def)
  have dsb: "distinct (map fst sb)"
    by (simp add: sb_def sorted_buckets_def comp_def bucket_keys_props(1))
  show "map_of (tasks_by_section b) k =
           (if k \<in> set (resolve_columns env vms) \<union> {other_col}
               \<and> (k = other_col \<longrightarrow> overflow (resolve_columns env vms) vms \<noteq> [])
            then Some (sort_bucket (column_tasks (resolve_columns env vms) vms k)) else None)"
    unfolding titles_def[symmetric]
    by (simp add: tbs sb_def delete_conv' map_of_sorted_buckets)
  show "distinct (map fst (tasks_by_section b))"
    using dsb by (simp add: tbs distinct_delete)
  have "concat (map snd (AList.delete other_col sb)) = concat (map snd sb)"
    if "overflow titles vms = []"
  proof (rule delete_empty_bucket, intro ballI impI)
    fix p assume p: "p \<in> set sb" and k: "fst p = other_col"
    from p have "snd p = sort_bucket (column_tasks titles vms (fst p))"
      unfolding sb_def by (rule sorted_buckets_entry)
    with k that show "snd p = []"
      by (simp add: overflow_def column_tasks_def sort_bucket_Nil_iff)
  qed
  then show "mset (concat (map snd (tasks_by_section b))) = mset vms"
    using sorted_buckets_concat[of titles vms] by (simp add: tbs sb_def)
  show "columns b = resolve_columns env vms
           @ (if overflow (resolve_columns env vms) vms = [] then [] else [other_col])"
    using cols by (simp add: titles_def)
qed


text \<open>
  C1. When the build returns, the buckets it hands to the template partition the view
  models it built: the keys of the buckets are pairwise different and are resolved titles
  or "Other"; the bucket of a key holds exactly the view models of that column (as a
  multiset: every view model as often as it was built), each of them a built view model
  whose column is that key; two buckets with different keys have no view model in
  common; every built view model is in the bucket of exactly one key; all buckets
  together hold the view models with no loss and no duplication; and the sizes of the
  buckets add up to the number of tasks minus the number of excluded tasks. The built
  view models are those of the tasks that are not excluded, in sorted order.
\<close>

theorem buckets_partition_view_models:
  assumes "build rt exclude_set sections_env tasks_iter sections_iter = Inr b"
  shows "let vms = built_view_models rt exclude_set tasks_iter sections_iter;
             titles = resolve_columns sections_env vms;
             buckets = tasks_by_section b
         in distinct (map fst buckets)
          \<and> set (map fst buckets) \<subseteq> set titles \<union> {other_col}
          \<and> (\<forall>k l. map_of buckets k = Some l \<longrightarrow>
                mset l = mset (column_tasks titles vms k)
                \<and> (\<forall>vm\<in>set l. vm \<in> set vms \<and> bucket_key titles vm = k))
          \<and> (\<forall>k k' l l'. map_of buckets k = Some l \<and> map_of buckets k' = Some l' \<and> k \<noteq> k'
                \<longrightarrow> set l \<inter> set l' = {})
          \<and> (\<forall>vm\<in>set vms. \<exists>!k. \<exists>l. map_of buckets k = Some l \<and> vm \<in> set l)
          \<and> mset (concat (map snd buckets)) = mset vms
          \<and> sum_list (map (\<lambda>kb. length (snd kb)) buckets)
              = length (as_list tasks_iter)
                  - length (filter (excluded rt exclude_set) (as_list tasks_iter))
          \<and> (\<exists>names ts. section_name_by_id rt sections_iter = Inr names
                \<and> sort_tasks rt (as_list tasks_iter) = Inr ts
                \<and> vms = map (\<lambda>t. the (view_model_or_none rt names exclude_set t))
                          (filter (\<lambda>t. \<not> excluded rt exclude_set t) ts))"
proof -
  define vms where "vms = built_view_models rt exclude_set tasks_iter sections_iter"
  define titles where "titles = resolve_columns sections_env vms"
  define buckets where "buckets = tasks_by_section b"
  from build_Inr_stages[OF assms] obtain names ts
    where n: "section_name_by_id rt sections_iter = Inr names"
      and s: "sort_tasks rt (as_list tasks_iter) = Inr ts"
      and v: "build_view_models rt names exclude_set ts = Inr vms"
      and lay: "layout sections_env vms = Inr b"
    unfolding vms_def by blast
  have mo: "map_of buckets k =
           (if k \<in> set titles \<union> {other_col} \<and> (k = other_col \<longrightarrow> overflow titles vms \<noteq> [])
            then Some (sort_bucket (column_tasks titles vms k)) else None)" for k
    unfolding buckets_def titles_def by (rule board_buckets(1)[OF lay])
  have d: "distinct (map fst buckets)"
    unfolding buckets_def by (rule board_buckets(2)[OF lay])
  have un: "mset (concat (map snd buckets)) = mset vms"
    unfolding buckets_def by (rule board_buckets(3)[OF lay])
  have bk: "l = sort_bucket (column_tasks titles vms k)" if "map_of buckets k = Some l" for k l
    using that by (simp add: mo split: if_splits)
  have keys: "set (map fst buckets) \<subseteq> set titles \<union> {other_col}"
  proof
    fix k assume "k \<in> set (map fst buckets)"
    then have "k \<in> fst ` set buckets" by simp
    from map_of_present[OF this] obtain l where "map_of buckets k = Some l" ..
    then show "k \<in> set titles \<union> {other_col}" by (simp add: mo split: if_splits)
  qed
  have each: "\<forall>k l. map_of buckets k = Some l \<longrightarrow>
                mset l = mset (column_tasks titles vms k)
                \<and> (\<forall>vm\<in>set l. vm \<in> set vms \<and> bucket_key titles vm = k)"
  proof (intro allI impI)
    fix k l assume "map_of buckets k = Some l"
    then have l: "l = sort_bucket (column_tasks titles vms k)" by (rule bk)
    show "mset l = mset (column_tasks titles vms k)
                \<and> (\<forall>vm\<in>set l. vm \<in> set vms \<and> bucket_key titles vm = k)"
      unfolding l by (simp add: mset_sort_bucket set_sort_bucket column_tasks_def)
  qed
  have keyof: "bucket_key titles vm = k" if "map_of buckets k = Some l" "vm \<in> set l" for k l vm
    using that(2) unfolding bk[OF that(1)] by (simp add: set_sort_bucket column_tasks_def)
  have disj: "\<forall>k k' l l'. map_of buckets k = Some l \<and> map_of buckets k' = Some l' \<and> k \<noteq> k'
                \<longrightarrow> set l \<inter> set l' = {}"
  proof (intro allI impI, elim conjE)
    fix k k' l l'
    assume a: "map_of buckets k = Some l" and a': "map_of buckets k' = Some l'" and ne: "k \<noteq> k'"
    have "vm \<notin> set l'" if "vm \<in> set l" for vm
    proof
      assume "vm \<in> set l'"
      from keyof[OF a' this] keyof[OF a that] ne show False by simp
    qed
    then show "set l \<inter> set l' = {}" by blast
  qed
  have one: "\<forall>vm\<in>set vms. \<exists>!k. \<exists>l. map_of buckets k = Some l \<and> vm \<in> set l"
  proof
    fix vm assume vm: "vm \<in> set vms"
    define k0 where "k0 = bucket_key titles vm"
    have kin: "k0 \<in> set titles \<union> {other_col}" unfolding k0_def by (rule bucket_key_in)
    have ov: "overflow titles vms \<noteq> []" if "k0 = other_col"
    proof -
      from vm that have "vm \<in> set (overflow titles vms)" by (simp add: overflow_def k0_def)
      then show ?thesis by auto
    qed
    have m0: "map_of buckets k0 = Some (sort_bucket (column_tasks titles vms k0))"
      using kin ov by (simp add: mo)
    have in0: "vm \<in> set (sort_bucket (column_tasks titles vms k0))"
      using vm by (simp add: set_sort_bucket column_tasks_def k0_def)
    show "\<exists>!k. \<exists>l. map_of buckets k = Some l \<and> vm \<in> set l"
    proof (rule ex1I[of _ k0])
      from m0 in0 show "\<exists>l. map_of buckets k0 = Some l \<and> vm \<in> set l" by blast
    next
      fix k assume "\<exists>l. map_of buckets k = Some l \<and> vm \<in> set l"
      then obtain l where "map_of buckets k = Some l" and "vm \<in> set l" by blast
      then have "bucket_key titles vm = k" by (rule keyof)
      then show "k = k0" by (simp add: k0_def)
    qed
  qed
  have len: "length vms = length (as_list tasks_iter)
                  - length (filter (excluded rt exclude_set) (as_list tasks_iter))"
    unfolding vms_def by (rule build_without_excluded(2)[OF assms])
  have "sum_list (map (\<lambda>kb. length (snd kb)) buckets) = length (concat (map snd buckets))"
    by (simp add: length_concat comp_def)
  also have "\<dots> = length vms" using un by (rule mset_eq_length)
  finally have total: "sum_list (map (\<lambda>kb. length (snd kb)) buckets)
              = length (as_list tasks_iter)
                  - length (filter (excluded rt exclude_set) (as_list tasks_iter))"
    using len by simp
  have src: "\<exists>names ts. section_name_by_id rt sections_iter = Inr names
                \<and> sort_tasks rt (as_list tasks_iter) = Inr ts
                \<and> vms = map (\<lambda>t. the (view_model_or_none rt names exclude_set t))
                          (filter (\<lambda>t. \<not> excluded rt exclude_set t) ts)"
    using n s build_view_models_skip_excluded(3)[OF v] by blast
  show ?thesis
    unfolding Let_def vms_def[symmetric] titles_def[symmetric] buckets_def[symmetric]
    apply (insert d keys each disj one un total src)
    apply (intro conjI; assumption)
    done
qed

text \<open>Four tasks with the priority 4 excluded: A is dropped, B and D go to "Done", C has
  no section and goes to "Other"; the sizes of the buckets add up to 3 = 4 - 1.\<close>

theorem buckets_partition_view_models_witness:
  "map_sum id (\<lambda>b. map (\<lambda>kb. (fst kb, map vm_content (snd kb))) (tasks_by_section b))
     (build plain_runtime {4} (Some ''To Do|Done'')
        [PDict [(''content'', PStr ''A''), (''priority'', PInt 4), (''section_id'', PStr ''s1'')],
         PDict [(''content'', PStr ''B''), (''priority'', PInt 1), (''section_id'', PStr ''s2'')],
         PDict [(''content'', PStr ''C''), (''priority'', PInt 2)],
         PDict [(''content'', PStr ''D''), (''priority'', PInt 3), (''section_id'', PStr ''s2'')]]
        [PDict [(''id'', PStr ''s1''), (''name'', PStr ''To Do'')],
         PDict [(''id'', PStr ''s2''), (''name'', PStr ''Done'')]])
     = Inr [(''To Do'', []), (''Done'', [''B'', ''D'']), (''Column 3'', []), (''Column 4'', []),
            (''Column 5'', []), (''Other'', [''C''])]
   \<and> (case build plain_runtime {4} (Some ''To Do|Done'')
        [PDict [(''content'', PStr ''A''), (''priority'', PInt 4), (''section_id'', PStr ''s1'')],
         PDict [(''content'', PStr ''B''), (''priority'', PInt 1), (''section_id'', PStr ''s2'')],
         PDict [(''content'', PStr ''C''), (''priority'', PInt 2)],
         PDict [(''content'', PStr ''D''), (''priority'', PInt 3), (''section_id'', PStr ''s2'')]]
        [PDict [(''id'', PStr ''s1''), (''name'', PStr ''To Do'')],
         PDict [(''id'', PStr ''s2''), (''name'', PStr ''Done'')]] of
         Inr b \<Rightarrow> sum_list (map (\<lambda>kb. length (snd kb)) (tasks_by_section b)) = 3
                  \<and> distinct (map fst (tasks_by_section b))
       | Inl _ \<Rightarrow> False)"
proof -
  let ?A = "PDict [(''content'', PStr ''A''), (''priority'', PInt 4), (''section_id'', PStr ''s1'')]"
  let ?B = "PDict [(''content'', PStr ''B''), (''priority'', PInt 1), (''section_id'', PStr ''s2'')]"
  let ?C = "PDict [(''content'', PStr ''C''), (''priority'', PInt 2)]"
  let ?D = "PDict [(''content'', PStr ''D''), (''priority'', PInt 3), (''section_id'', PStr ''s2'')]"
  let ?secs = "[PDict [(''id'', PStr ''s1''), (''name'', PStr ''To Do'')],
         PDict [(''id'', PStr ''s2''), (''name'', PStr ''Done'')]]"
  let ?build = "build plain_runtime {4} (Some ''To Do|Done'') [?A, ?B, ?C, ?D] ?secs"
  have buckets: "map_sum id (\<lambda>b. map (\<lambda>kb. (fst kb, map vm_content (snd kb))) (tasks_by_section b)) ?build
     = Inr [(''To Do'', []), (''Done'', [''B'', ''D'']), (''Column 3'', []), (''Column 4'', []),
            (''Column 5'', []), (''Other'', [''C''])]"
    by code_simp
  then obtain b where h: "?build = Inr b"
    by (cases ?build) simp_all
  have ex: "filter (excluded plain_runtime {4}) (as_list [?A, ?B, ?C, ?D]) = [?A]"
    by code_simp
  have len: "length (as_list [?A, ?B, ?C, ?D]) = 4"
    by code_simp
  from buckets_partition_view_models[OF h]
  have "sum_list (map (\<lambda>kb. length (snd kb)) (tasks_by_section b)) = 3
        \<and> distinct (map fst (tasks_by_section b))"
    unfolding Let_def ex len by simp
  with buckets show ?thesis unfolding h by simp
qed

subsection \<open>The column "Other"\<close>







end
